theory Spec2Isabelle
  imports Complex_Main
begin

section \<open>Encoders, floats and exceptions\<close>

text \<open>
  The encoders (Pillow's resize and save, Ghostscript, ffmpeg) are external to the
  repository.  Each one is a parameter of the model: a function from the
  arguments of one call to the size of what it wrote, or to \<open>None\<close> when the
  call raises.  A function is deterministic, as the specification assumes of its
  Encoder.  Every model function returns, next to its result, the list of encoder
  calls it made, in order; the list is an observation added to the code, which
  keeps no such record.

  Python's integers are \<open>int\<close>.  A Python float is the rational number it holds
  (\<open>rat\<close>); comparisons of floats, and of a float with an integer, are then exact,
  as they are in Python.  An arithmetic operation on floats rounds its exact
  result to a double, and a decimal literal such as \<open>0.9\<close> is the double nearest
  to it: the rounding is the parameter \<open>fl\<close> of the model, applied to the exact
  result of every operation that can round and to every literal that is not a
  double.  Nothing is assumed of \<open>fl\<close> unless a theorem says so, so the theorems
  hold for whatever the rounding does.  Operations that are exact in binary
  floating point at the magnitudes of file sizes (a product or quotient by a
  power of two, the sum or difference of two small dyadic fractions) are written
  without \<open>fl\<close>.
\<close>

type_synonym rounding = "rat \<Rightarrow> rat"

text \<open>
  The exceptions that leave the functions modelled here: \<open>InvalidImage\<close> is the
  \<open>ValueError\<close> of line 185 of the image compressor, \<open>CompressionFailed\<close> the one
  of its line 284, \<open>InvalidDuration\<close> the one of line 134 of the video
  compressor, \<open>VideoInfoError\<close> what \<open>get_video_info\<close> raises,
  \<open>ZeroDivisionError\<close> Python's own, and \<open>EncoderError\<close> whatever an encoder
  call raises (an exception of Pillow, the \<open>RuntimeError\<close> of \<open>compress_pdf\<close> and
  of \<open>run_ffmpeg_compression\<close>).
\<close>

datatype error =
  InvalidImage | CompressionFailed | InvalidDuration | VideoInfoError
  | ZeroDivisionError | EncoderError

section \<open>The image compressor\<close>

text \<open>
  \<open>compress_with_settings(image, format, quality, width, height)\<close> for the
  image of one request: the buffer and its size.
\<close>

type_synonym 'b encoder = "string \<Rightarrow> int \<Rightarrow> int option \<Rightarrow> int option \<Rightarrow> ('b \<times> int) option"

type_synonym 'b best = "'b \<times> int \<times> int"

definition max_iterations :: nat where
  "max_iterations = 20"

text \<open>
  The main loop of \<open>binary_search_quality\<close> (lines 120 to 139).  \<open>probe q\<close> is
  \<open>compress_with_settings(image, format, q, width, height)\<close>.  The \<open>break\<close> of
  line 134 leaves the loop with the midpoint as the best.
\<close>

function search_loop ::
  "(int \<Rightarrow> ('b \<times> int) option) \<Rightarrow> int \<Rightarrow> rat \<Rightarrow> int \<Rightarrow> int \<Rightarrow> nat \<Rightarrow> 'b best
     \<Rightarrow> int list \<times> (error + 'b best)" where
  "search_loop probe target_size tolerance_bytes low high iterations best =
     (if low \<le> high \<and> iterations < max_iterations then
        (let mid = (low + high) div 2 in
         case probe mid of
           None \<Rightarrow> ([mid], Inl EncoderError)
         | Some (buffer, sz) \<Rightarrow>
             if sz \<le> target_size then
               (if of_int (target_size - sz) \<le> tolerance_bytes
                then ([mid], Inr (buffer, sz, mid))
                else apfst (Cons mid)
                       (search_loop probe target_size tolerance_bytes (mid + 1) high
                          (iterations + 1) (buffer, sz, mid)))
             else apfst (Cons mid)
                    (search_loop probe target_size tolerance_bytes low (mid - 1)
                       (iterations + 1) best))
      else ([], Inr best))"
  by pat_completeness auto
termination
  by (relation "measure (\<lambda>(probe, target_size, tolerance_bytes, low, high, iterations, best).
        max_iterations - iterations)") auto

declare search_loop.simps [simp del]

text \<open>
  The fine-tuning pass (lines 144 to 149) over the quality values of the
  \<open>range\<close>, which Python evaluates once, before the first probe.
\<close>

fun fine_tune ::
  "(int \<Rightarrow> ('b \<times> int) option) \<Rightarrow> int \<Rightarrow> int list \<Rightarrow> 'b best \<Rightarrow> int list \<times> (error + 'b best)" where
  "fine_tune probe target_size [] best = ([], Inr best)"
| "fine_tune probe target_size (q # qs) (best_buffer, best_size, best_quality) =
     (case probe q of
        None \<Rightarrow> ([q], Inl EncoderError)
      | Some (buffer, sz) \<Rightarrow>
          apfst (Cons q)
            (fine_tune probe target_size qs
               (if sz \<le> target_size \<and> sz > best_size then (buffer, sz, q)
                else (best_buffer, best_size, best_quality))))"

text \<open>\<open>range(best_quality + 1, min(best_quality + 5, max_quality + 1))\<close>\<close>

definition fine_tune_range :: "int \<Rightarrow> int \<Rightarrow> int list" where
  "fine_tune_range best_quality max_quality =
     [best_quality + 1 .. min (best_quality + 5) (max_quality + 1) - 1]"

text \<open>
  \<open>binary_search_quality\<close>: \<open>Inr None\<close> is the return of \<open>(None, None, None)\<close>,
  \<open>Inr (Some (buffer, sz, quality))\<close> any other return, \<open>Inl\<close> an exception of
  the encoder, which nothing in the function catches.
\<close>

definition binary_search_quality ::
  "rounding \<Rightarrow> 'b encoder \<Rightarrow> string \<Rightarrow> int \<Rightarrow> int \<Rightarrow> int \<Rightarrow> int option \<Rightarrow> int option \<Rightarrow> rat
     \<Rightarrow> int list \<times> (error + 'b best option)" where
  "binary_search_quality fl enc format target_size min_quality max_quality width height
       tolerance_pct =
     (let probe = (\<lambda>q. enc format q width height);
          tolerance_bytes = fl (fl (of_int target_size * tolerance_pct) / 100)
      in case probe max_quality of
           None \<Rightarrow> ([max_quality], Inl EncoderError)
         | Some (buffer, sz) \<Rightarrow>
             if sz \<le> target_size then ([max_quality], Inr (Some (buffer, sz, max_quality)))
             else
               (case probe min_quality of
                  None \<Rightarrow> ([max_quality, min_quality], Inl EncoderError)
                | Some (buffer, sz) \<Rightarrow>
                    if sz > target_size then ([max_quality, min_quality], Inr None)
                    else if of_int (target_size - sz) \<le> tolerance_bytes
                    then ([max_quality, min_quality], Inr (Some (buffer, sz, min_quality)))
                    else
                      (case search_loop probe target_size tolerance_bytes min_quality max_quality 0
                              (buffer, sz, min_quality) of
                         (tr1, Inl e) \<Rightarrow> ([max_quality, min_quality] @ tr1, Inl e)
                       | (tr1, Inr (best_buffer, best_size, best_quality)) \<Rightarrow>
                           (case fine_tune probe target_size
                                   (fine_tune_range best_quality max_quality)
                                   (best_buffer, best_size, best_quality) of
                              (tr2, Inl e) \<Rightarrow> ([max_quality, min_quality] @ tr1 @ tr2, Inl e)
                            | (tr2, Inr best) \<Rightarrow>
                                ([max_quality, min_quality] @ tr1 @ tr2, Inr (Some best))))))"

text \<open>
  \<open>str.lower()\<close> and \<open>str.upper()\<close> on the ASCII letters, which is all an image
  format name holds.
\<close>

definition lower_char :: "char \<Rightarrow> char" where
  "lower_char c =
     (let n = (of_char c :: nat) in if 65 \<le> n \<and> n \<le> 90 then char_of (n + 32) else c)"

definition upper_char :: "char \<Rightarrow> char" where
  "upper_char c =
     (let n = (of_char c :: nat) in if 97 \<le> n \<and> n \<le> 122 then char_of (n - 32) else c)"

definition lower :: "string \<Rightarrow> string" where
  "lower s = map lower_char s"

definition upper :: "string \<Rightarrow> string" where
  "upper s = map upper_char s"

text \<open>\<open>int(x)\<close> of a float truncates toward zero.\<close>

definition py_int :: "rat \<Rightarrow> int" where
  "py_int x = (if 0 \<le> x then \<lfloor>x\<rfloor> else \<lceil>x\<rceil>)"

text \<open>
  \<open>round(x, 2)\<close>: the double nearest to the exact value of \<open>x\<close> rounded to two
  decimals, a tie going to the even digit.
\<close>

definition round_half_even :: "rat \<Rightarrow> int" where
  "round_half_even x =
     (let f = \<lfloor>x\<rfloor>; r = x - of_int f
      in if r < 1 / 2 then f else if 1 / 2 < r then f + 1 else if even f then f else f + 1)"

definition round2 :: "rounding \<Rightarrow> rat \<Rightarrow> rat" where
  "round2 fl x = fl (of_int (round_half_even (x * 100)) / 100)"

definition calculate_new_dimensions :: "rounding \<Rightarrow> int \<Rightarrow> int \<Rightarrow> rat \<Rightarrow> int \<times> int" where
  "calculate_new_dimensions fl original_width original_height scale_factor =
     (let new_width = max 1 (py_int (fl (of_int original_width * scale_factor)));
          new_height = max 1 (py_int (fl (of_int original_height * scale_factor)))
      in (new_width, new_height))"

text \<open>
  What \<open>compress_image\<close> reads of its argument: the size of the file, the file
  object itself (\<open>file_buffer\<close>), the image Pillow decodes from it (\<open>None\<close> when
  \<open>Image.open\<close> or \<open>load\<close> raises) and the base name of its file name.
\<close>

record image =
  img_format :: "string option"
  img_mode :: string
  img_size :: "int \<times> int"

record 'b upload =
  file_size :: int
  file_buffer :: 'b
  opened :: "image option"
  base_name :: string

text \<open>The values of the \<open>compression_info\<close> dictionaries, and a dictionary literal.\<close>

datatype pyval =
  VInt int | VFloat rat | VBool bool | VStr string | VPair "int \<times> int"

type_synonym info = "(string \<times> pyval) list"

text \<open>One call of an image encoder: format, quality, width, height.\<close>

type_synonym image_probe = "string \<times> int \<times> int option \<times> int option"

definition scale_factors :: "rounding \<Rightarrow> rat list" where
  "scale_factors fl = map fl [9 / 10, 8 / 10, 7 / 10, 6 / 10, 5 / 10, 4 / 10, 3 / 10, 2 / 10]"

text \<open>
  The loop over the scale factors (lines 224 to 262): \<open>Inr None\<close> when no step
  of the ladder succeeds, else the best buffer with the dimensions it was made at.
\<close>

fun ladder ::
  "rounding \<Rightarrow> 'b encoder \<Rightarrow> string \<Rightarrow> int \<Rightarrow> int \<Rightarrow> int \<Rightarrow> rat list
     \<Rightarrow> image_probe list \<times> (error + ('b best \<times> int \<times> int) option)" where
  "ladder fl enc format target_size original_width original_height [] = ([], Inr None)"
| "ladder fl enc format target_size original_width original_height (scale # rest) =
     (case calculate_new_dimensions fl original_width original_height scale of
        (new_width, new_height) \<Rightarrow>
          (case enc format 95 (Some new_width) (Some new_height) of
             None \<Rightarrow> ([(format, 95, Some new_width, Some new_height)], Inl EncoderError)
           | Some (buffer, sz) \<Rightarrow>
               if sz \<le> target_size
               then ([(format, 95, Some new_width, Some new_height)],
                     Inr (Some ((buffer, sz, 95), new_width, new_height)))
               else
                 (case binary_search_quality fl enc format target_size 1 95
                         (Some new_width) (Some new_height) 1 of
                    (tr, r) \<Rightarrow>
                      (let here = (format, 95, Some new_width, Some new_height)
                                  # map (\<lambda>q. (format, q, Some new_width, Some new_height)) tr
                       in case r of
                            Inl e \<Rightarrow> (here, Inl e)
                          | Inr (Some best) \<Rightarrow> (here, Inr (Some (best, new_width, new_height)))
                          | Inr None \<Rightarrow>
                              apfst (append here)
                                (ladder fl enc format target_size original_width
                                   original_height rest)))))"

text \<open>The dictionary of the early return (lines 190 to 197).\<close>

definition early_info :: "int \<Rightarrow> image \<Rightarrow> info" where
  "early_info original_size img =
     [(''original_size'', VInt (original_size div 1024)),
      (''compressed_size'', VInt (original_size div 1024)),
      (''reduction_percent'', VInt 0),
      (''quality'', VInt 100),
      (''dimensions'', VPair (img_size img)),
      (''resized'', VBool False)]"

text \<open>The dictionary of the last return (lines 291 to 303).\<close>

definition compression_info ::
  "rounding \<Rightarrow> int \<Rightarrow> int \<Rightarrow> int \<Rightarrow> image \<Rightarrow> int \<times> int \<Rightarrow> bool \<Rightarrow> string \<Rightarrow> int \<Rightarrow> int
     \<Rightarrow> info" where
  "compression_info fl original_size best_size best_quality img final_dimensions resized
       format_for_compression max_size_kb target_size =
     [(''original_size'', VInt (original_size div 1024)),
      (''compressed_size'', VInt ((best_size + 1023) div 1024)),
      (''actual_size_bytes'', VInt best_size),
      (''reduction_percent'',
         VFloat (round2 fl
           (fl (fl (1 - fl (of_int best_size / of_int original_size)) * 100)))),
      (''quality'', VInt best_quality),
      (''original_dimensions'', VPair (img_size img)),
      (''final_dimensions'', VPair final_dimensions),
      (''resized'', VBool resized),
      (''format'', VStr format_for_compression),
      (''target_size_kb'', VInt max_size_kb),
      (''success'', VBool (best_size \<le> target_size))]"

text \<open>
  Lines 282 to 305: the check that a buffer was found, the file name and the
  dictionary.  The quotient \<open>best_size / original_size\<close> raises when the file is
  empty.
\<close>

definition finish ::
  "rounding \<Rightarrow> 'b upload \<Rightarrow> image \<Rightarrow> string \<Rightarrow> int \<Rightarrow> 'b best option \<Rightarrow> bool \<Rightarrow> int \<times> int
     \<Rightarrow> error + 'b \<times> string \<times> info" where
  "finish fl file img format_for_compression max_size_kb best resized final_dimensions =
     (case best of
        None \<Rightarrow> Inl CompressionFailed
      | Some (best_buffer, best_size, best_quality) \<Rightarrow>
          if file_size file = 0 then Inl ZeroDivisionError
          else Inr (best_buffer,
                    base_name file @ ''_compressed.'' @ lower format_for_compression,
                    compression_info fl (file_size file) best_size best_quality img
                      final_dimensions resized format_for_compression max_size_kb
                      (max_size_kb * 1024)))"

text \<open>\<open>image.format or 'JPEG'\<close>\<close>

definition original_format_of :: "image \<Rightarrow> string" where
  "original_format_of img =
     (case img_format img of None \<Rightarrow> ''JPEG'' | Some f \<Rightarrow> if f = [] then ''JPEG'' else f)"

text \<open>Lines 199 to 203.\<close>

definition format_for_compression_of :: "image \<Rightarrow> int \<Rightarrow> int \<Rightarrow> string" where
  "format_for_compression_of img original_size target_size =
     (if upper (original_format_of img) = ''PNG'' \<and> img_mode img = ''RGBA''
         \<and> (of_int target_size :: rat) < of_int original_size * (1 / 2)
      then ''WEBP'' else original_format_of img)"

definition compress_image ::
  "rounding \<Rightarrow> 'b encoder \<Rightarrow> 'b upload \<Rightarrow> int
     \<Rightarrow> image_probe list \<times> (error + 'b \<times> string \<times> info)" where
  "compress_image fl enc file max_size_kb =
     (let original_size = file_size file; target_size = max_size_kb * 1024
      in case opened file of
           None \<Rightarrow> ([], Inl InvalidImage)
         | Some img \<Rightarrow>
             if original_size \<le> target_size
             then ([], Inr (file_buffer file,
                            base_name file @ ''_compressed.'' @ lower (original_format_of img),
                            early_info original_size img))
             else
               (let format_for_compression =
                      format_for_compression_of img original_size target_size;
                    at_size = (\<lambda>q. (format_for_compression, q, None, None))
                in case binary_search_quality fl enc format_for_compression target_size 1 95
                          None None 1 of
                     (tr0, Inl e) \<Rightarrow> (map at_size tr0, Inl e)
                   | (tr0, Inr (Some best)) \<Rightarrow>
                       (map at_size tr0,
                        finish fl file img format_for_compression max_size_kb (Some best)
                          False (img_size img))
                   | (tr0, Inr None) \<Rightarrow>
                       (case img_size img of
                          (original_width, original_height) \<Rightarrow>
                            (case ladder fl enc format_for_compression target_size
                                    original_width original_height (scale_factors fl) of
                               (tr1, Inl e) \<Rightarrow> (map at_size tr0 @ tr1, Inl e)
                             | (tr1, Inr (Some (best, final_dimensions))) \<Rightarrow>
                                 (map at_size tr0 @ tr1,
                                  finish fl file img format_for_compression max_size_kb
                                    (Some best) True final_dimensions)
                             | (tr1, Inr None) \<Rightarrow>
                                 (case calculate_new_dimensions fl original_width
                                         original_height (fl (1 / 10)) of
                                    (min_width, min_height) \<Rightarrow>
                                      (case enc format_for_compression 1 (Some min_width)
                                              (Some min_height) of
                                         None \<Rightarrow>
                                           (map at_size tr0 @ tr1
                                              @ [(format_for_compression, 1, Some min_width,
                                                  Some min_height)],
                                            Inl EncoderError)
                                       | Some (best_buffer, best_size) \<Rightarrow>
                                           (map at_size tr0 @ tr1
                                              @ [(format_for_compression, 1, Some min_width,
                                                  Some min_height)],
                                            finish fl file img format_for_compression
                                              max_size_kb (Some (best_buffer, best_size, 1))
                                              True (min_width, min_height))))))))"





definition none_fits :: "'b encoder \<Rightarrow> int \<Rightarrow> image_probe list \<Rightarrow> bool" where
  "none_fits enc target_size tr =
     list_all (\<lambda>p. case enc (fst p) (fst (snd p)) (fst (snd (snd p))) (snd (snd (snd p))) of
                      None \<Rightarrow> True
                    | Some (buffer, sz) \<Rightarrow> target_size < sz) tr"

text \<open>A list of encoder calls none of which raises.\<close>

definition every_call_returns :: "'b encoder \<Rightarrow> image_probe list \<Rightarrow> bool" where
  "every_call_returns enc tr =
     list_all (\<lambda>p. enc (fst p) (fst (snd p)) (fst (snd (snd p))) (snd (snd (snd p))) \<noteq> None) tr"

text \<open>An encoder none of whose calls raises.\<close>

definition total_encoder :: "'b encoder \<Rightarrow> bool" where
  "total_encoder enc = (\<forall>format q width height. enc format q width height \<noteq> None)"

section \<open>The PDF compressor\<close>

record level =
  quality_factor :: rat
  gs_preset :: string
  dpi :: int

text \<open>The table of line 48; \<open>0.0\<close>, \<open>0.5\<close> and \<open>1.0\<close> are doubles.\<close>

definition CUSTOM_QUALITY_LEVELS :: "rounding \<Rightarrow> level list" where
  "CUSTOM_QUALITY_LEVELS fl =
     [\<lparr>quality_factor = 0, gs_preset = ''/screen'', dpi = 36\<rparr>,
      \<lparr>quality_factor = fl (1 / 10), gs_preset = ''/screen'', dpi = 50\<rparr>,
      \<lparr>quality_factor = fl (2 / 10), gs_preset = ''/screen'', dpi = 72\<rparr>,
      \<lparr>quality_factor = fl (3 / 10), gs_preset = ''/ebook'', dpi = 100\<rparr>,
      \<lparr>quality_factor = fl (4 / 10), gs_preset = ''/ebook'', dpi = 150\<rparr>,
      \<lparr>quality_factor = 1 / 2, gs_preset = ''/ebook'', dpi = 200\<rparr>,
      \<lparr>quality_factor = fl (6 / 10), gs_preset = ''/printer'', dpi = 225\<rparr>,
      \<lparr>quality_factor = fl (7 / 10), gs_preset = ''/printer'', dpi = 250\<rparr>,
      \<lparr>quality_factor = fl (8 / 10), gs_preset = ''/printer'', dpi = 300\<rparr>,
      \<lparr>quality_factor = fl (9 / 10), gs_preset = ''/prepress'', dpi = 300\<rparr>,
      \<lparr>quality_factor = 1, gs_preset = ''/prepress'', dpi = 400\<rparr>]"

text \<open>
  \<open>get_settings_for_quality_factor\<close>: the first level of the table that the
  loop's test accepts, else \<open>CUSTOM_QUALITY_LEVELS[-1]\<close>.
\<close>

definition get_settings_for_quality_factor :: "rounding \<Rightarrow> rat \<Rightarrow> level" where
  "get_settings_for_quality_factor fl factor =
     (case find (\<lambda>level. factor \<le> quality_factor level) (CUSTOM_QUALITY_LEVELS fl) of
        Some level \<Rightarrow> level
      | None \<Rightarrow> last (CUSTOM_QUALITY_LEVELS fl))"

text \<open>
  \<open>compress_pdf\<close> with given settings followed by \<open>os.path.getsize\<close> of its
  output: the size in bytes, or \<open>None\<close> when either raises.
\<close>

type_synonym ghostscript = "level \<Rightarrow> int option"

text \<open>\<open>get_file_size_mb\<close> and \<open>get_file_size_kb\<close> of a file of the given size.\<close>

definition size_mb :: "int \<Rightarrow> rat" where
  "size_mb bytes = of_int bytes / (1024 * 1024)"

definition size_kb :: "int \<Rightarrow> rat" where
  "size_kb bytes = of_int bytes / 1024"

text \<open>
  The files a search can return: the input, \<open>lowest_quality.pdf\<close>,
  \<open>highest_quality.pdf\<close> and \<open>quality_<mid>.pdf\<close>.  One call of the encoder is
  the factor asked for and the level it resolved to.
\<close>

datatype pdf_file = InputFile | LowestQuality | HighestQuality | Quality rat

type_synonym pdf_probe = "rat \<times> level"

definition pdf_max_iterations :: nat where
  "pdf_max_iterations = 8"

text \<open>
  The loop of lines 203 to 229.  An exception inside the \<open>try\<close> is caught and
  moves \<open>high\<close> to \<open>mid\<close>.
\<close>

function tier_loop ::
  "rounding \<Rightarrow> ghostscript \<Rightarrow> rat \<Rightarrow> rat \<Rightarrow> rat \<Rightarrow> nat \<Rightarrow> pdf_file \<times> rat
     \<Rightarrow> pdf_probe list \<times> (pdf_file \<times> rat)" where
  "tier_loop fl gs target_size_mb low high iteration best =
     (if fl (1 / 20) < high - low \<and> iteration < pdf_max_iterations then
        (let mid = (low + high) / 2;
             settings = get_settings_for_quality_factor fl mid
         in case gs settings of
              None \<Rightarrow>
                apfst (Cons (mid, settings))
                  (tier_loop fl gs target_size_mb low mid (iteration + 1) best)
            | Some bytes \<Rightarrow>
                if size_mb bytes \<le> target_size_mb
                then apfst (Cons (mid, settings))
                       (tier_loop fl gs target_size_mb mid high (iteration + 1)
                          (if snd best < size_mb bytes then (Quality mid, size_mb bytes)
                           else best))
                else apfst (Cons (mid, settings))
                       (tier_loop fl gs target_size_mb low mid (iteration + 1) best))
      else ([], best))"
  by pat_completeness auto
termination
  by (relation "measure (\<lambda>(fl, gs, target_size_mb, low, high, iteration, best).
        pdf_max_iterations - iteration)") auto

declare tier_loop.simps [simp del]

text \<open>
  \<open>find_optimal_compression\<close>, the file it returns (or a copy of it under
  another name) and its size in megabytes.
\<close>

definition find_optimal_compression ::
  "rounding \<Rightarrow> ghostscript \<Rightarrow> int \<Rightarrow> rat \<Rightarrow> pdf_probe list \<times> (error + pdf_file \<times> rat)" where
  "find_optimal_compression fl gs input_size target_size_mb =
     (let input_size_mb = size_mb input_size
      in if input_size_mb \<le> target_size_mb then ([], Inr (InputFile, input_size_mb))
         else
           (let lowest_settings = get_settings_for_quality_factor fl 0
            in case gs lowest_settings of
                 None \<Rightarrow> ([(0, lowest_settings)], Inl EncoderError)
               | Some lowest_bytes \<Rightarrow>
                   if target_size_mb < size_mb lowest_bytes
                   then ([(0, lowest_settings)], Inr (LowestQuality, size_mb lowest_bytes))
                   else
                     (let highest_settings = get_settings_for_quality_factor fl 1
                      in case gs highest_settings of
                           None \<Rightarrow>
                             ([(0, lowest_settings), (1, highest_settings)], Inl EncoderError)
                         | Some highest_bytes \<Rightarrow>
                             if size_mb highest_bytes \<le> target_size_mb
                             then ([(0, lowest_settings), (1, highest_settings)],
                                   Inr (HighestQuality, size_mb highest_bytes))
                             else
                               (case tier_loop fl gs target_size_mb 0 1 0
                                       (LowestQuality, size_mb lowest_bytes) of
                                  (tr, best) \<Rightarrow>
                                    ([(0, lowest_settings), (1, highest_settings)] @ tr,
                                     Inr best)))))"

text \<open>
  The same notions for the PDF search: sizes that never decrease as the quality
  factor of the level rises, and a size that no fitting encoder call of a list
  exceeds.
\<close>

definition monotone_tiers :: "ghostscript \<Rightarrow> bool" where
  "monotone_tiers gs =
     (\<forall>level level' bytes bytes'.
        quality_factor level \<le> quality_factor level' \<and> gs level = Some bytes
          \<and> gs level' = Some bytes' \<longrightarrow> bytes \<le> bytes')"

text \<open>
  The two bounds of the PDF search in order: the highest level, when it fits the
  target, is not smaller than the lowest.
\<close>

definition highest_not_below_lowest :: "rounding \<Rightarrow> ghostscript \<Rightarrow> rat \<Rightarrow> bool" where
  "highest_not_below_lowest fl gs target_size_mb =
     (case (gs (get_settings_for_quality_factor fl 0), gs (get_settings_for_quality_factor fl 1)) of
        (Some lowest_bytes, Some highest_bytes) \<Rightarrow>
          size_mb highest_bytes \<le> target_size_mb \<longrightarrow> lowest_bytes \<le> highest_bytes
      | _ \<Rightarrow> True)"

definition largest_fitting_pdf :: "ghostscript \<Rightarrow> rat \<Rightarrow> pdf_probe list \<Rightarrow> rat \<Rightarrow> bool" where
  "largest_fitting_pdf gs target_size_mb tr best_size_mb =
     list_all (\<lambda>p. case gs (snd p) of
                      None \<Rightarrow> True
                    | Some bytes \<Rightarrow>
                        size_mb bytes \<le> target_size_mb \<longrightarrow> size_mb bytes \<le> best_size_mb) tr"

text \<open>\<open>str(n)\<close> of an integer, for the \<open>quality\<close> entry of the dictionaries.\<close>

fun digits :: "nat \<Rightarrow> string" where
  "digits n = (if n < 10 then [char_of (48 + n)] else digits (n div 10) @ [char_of (48 + n mod 10)])"

declare digits.simps [simp del]

definition str_of_int :: "int \<Rightarrow> string" where
  "str_of_int i = (if i < 0 then ''-'' @ digits (nat (- i)) else digits (nat i))"

text \<open>
  The dictionary that \<open>compress_to_target_size\<close> and the video branch of
  \<open>compress_file\<close> build from the two sizes in kilobytes.  The subtraction of
  line 303 is exact, both sizes being byte counts over 1024.
\<close>

definition quality_label :: "rounding \<Rightarrow> rat \<Rightarrow> rat \<Rightarrow> pyval" where
  "quality_label fl original_kb final_kb =
     VStr (if original_kb \<le> final_kb then ''Original''
           else str_of_int (py_int (fl (fl (final_kb / original_kb) * 100))) @ ''%'')"

text \<open>
  \<open>compress_to_target_size\<close> (lines 280 to 322): the file whose bytes the
  returned buffer holds, and the dictionary.  The quotients of lines 303 and 304
  raise when the input file is empty.
\<close>

definition compress_to_target_size ::
  "rounding \<Rightarrow> ghostscript \<Rightarrow> int \<Rightarrow> rat \<Rightarrow> pdf_probe list \<times> (error + pdf_file \<times> info)" where
  "compress_to_target_size fl gs input_size target_size_kb =
     (let original_size_kb = size_kb input_size;
          target_size_mb = target_size_kb / 1024
      in case find_optimal_compression fl gs input_size target_size_mb of
           (tr, Inl e) \<Rightarrow> (tr, Inl e)
         | (tr, Inr (compressed, final_size_mb)) \<Rightarrow>
             (let final_size_kb = final_size_mb * 1024
              in if original_size_kb = 0 then (tr, Inl ZeroDivisionError)
                 else
                   (let reduction_percent =
                          fl (fl ((original_size_kb - final_size_kb) / original_size_kb) * 100)
                    in (tr, Inr (compressed,
                          [(''original_size'', VFloat (round2 fl original_size_kb)),
                           (''compressed_size'', VFloat (round2 fl final_size_kb)),
                           (''reduction_percent'', VFloat (round2 fl reduction_percent)),
                           (''quality'', quality_label fl original_size_kb final_size_kb)])))))"

section \<open>The video compressor\<close>

text \<open>
  \<open>run_ffmpeg_compression\<close> at a video bitrate, a width and a height (the audio
  bitrate, the paths and the format are the same in every call of one request),
  followed by \<open>os.path.getsize\<close> of the output: the size in bytes, or \<open>None\<close>
  when the call raises.  Every call writes the same output path, so the file
  returned at the end is that of the last call.
\<close>

type_synonym video_probe = "rat \<times> int option \<times> int option"

type_synonym ffmpeg = "rat \<Rightarrow> int option \<Rightarrow> int option \<Rightarrow> int option"

definition BUFFER_MIN :: rat where
  "BUFFER_MIN = 1"

definition BUFFER_MAX :: rat where
  "BUFFER_MAX = 2"

definition BUFFER_AVG :: rat where
  "BUFFER_AVG = (BUFFER_MIN + BUFFER_MAX) / 2"

definition audio_bitrate :: rat where
  "audio_bitrate = 128000"

definition min_bitrate :: rat where
  "min_bitrate = 100000"

definition max_bitrate :: rat where
  "max_bitrate = 4000000"

definition max_attempts :: nat where
  "max_attempts = 4"

text \<open>Lines 180 to 186: the bitrate of the next attempt.\<close>

definition adjust_bitrate :: "rounding \<Rightarrow> rat \<Rightarrow> int \<Rightarrow> rat \<Rightarrow> rat" where
  "adjust_bitrate fl max_bytes final_size video_bitrate =
     (let scaled = (if max_bytes < of_int final_size then fl (video_bitrate * fl (9 / 10))
                    else fl (video_bitrate * fl (11 / 10)))
      in max min_bitrate (min scaled max_bitrate))"

text \<open>
  The loop of lines 179 to 191; it returns the last size, the last bitrate and
  the attempt counter it stopped at.
\<close>

function adjust_loop ::
  "rounding \<Rightarrow> ffmpeg \<Rightarrow> rat \<Rightarrow> rat \<Rightarrow> int \<Rightarrow> int \<Rightarrow> int \<Rightarrow> rat \<Rightarrow> nat
     \<Rightarrow> video_probe list \<times> (error + int \<times> rat \<times> nat)" where
  "adjust_loop fl enc min_bytes max_bytes width height final_size video_bitrate attempt =
     (if \<not> (min_bytes \<le> of_int final_size \<and> of_int final_size \<le> max_bytes)
         \<and> attempt \<le> max_attempts then
        (case enc (adjust_bitrate fl max_bytes final_size video_bitrate)
                (Some width) (Some height) of
           None \<Rightarrow>
             ([(adjust_bitrate fl max_bytes final_size video_bitrate, Some width, Some height)],
              Inl EncoderError)
         | Some final_size' \<Rightarrow>
             apfst (Cons (adjust_bitrate fl max_bytes final_size video_bitrate,
                          Some width, Some height))
               (adjust_loop fl enc min_bytes max_bytes width height final_size'
                  (adjust_bitrate fl max_bytes final_size video_bitrate) (attempt + 1)))
      else ([], Inr (final_size, video_bitrate, attempt)))"
  by pat_completeness auto
termination
  by (relation "measure (\<lambda>(fl, enc, min_bytes, max_bytes, width, height, final_size,
        video_bitrate, attempt). max_attempts + 1 - attempt)") auto

declare adjust_loop.simps [simp del]

text \<open>The first bitrate (lines 149 to 154).\<close>

definition initial_bitrate :: "rounding \<Rightarrow> rat \<Rightarrow> rat \<Rightarrow> rat" where
  "initial_bitrate fl target_bytes duration =
     (let video_bitrate = fl (fl (target_bytes * 8 / duration) - audio_bitrate)
      in max min_bitrate (min video_bitrate max_bitrate))"

text \<open>
  Lines 164 to 174: the second encoding, at 80% of the width and the height,
  when the first is above the band.
\<close>

definition downscale ::
  "rounding \<Rightarrow> ffmpeg \<Rightarrow> rat \<Rightarrow> int \<Rightarrow> int \<Rightarrow> rat \<Rightarrow> int
     \<Rightarrow> video_probe list \<times> (error + int)" where
  "downscale fl enc max_bytes width height video_bitrate final_size =
     (if max_bytes < of_int final_size then
        (let scale_factor = fl (8 / 10);
             new_width = py_int (fl (of_int width * scale_factor));
             new_height = py_int (fl (of_int height * scale_factor))
         in case enc video_bitrate (Some new_width) (Some new_height) of
              None \<Rightarrow> ([(video_bitrate, Some new_width, Some new_height)], Inl EncoderError)
            | Some final_size' \<Rightarrow>
                ([(video_bitrate, Some new_width, Some new_height)], Inr final_size'))
      else ([], Inr final_size))"

text \<open>
  Lines 193 to 201.  \<open>max_size_mb\<close> is the variable as line 139 left it: the
  caller's maximum less \<open>BUFFER_MIN\<close>.
\<close>

definition final_check ::
  "rounding \<Rightarrow> ffmpeg \<Rightarrow> rat \<Rightarrow> rat \<Rightarrow> rat \<Rightarrow> int \<Rightarrow> int \<Rightarrow> int
     \<Rightarrow> video_probe list \<times> (error + int)" where
  "final_check fl enc max_bytes max_size_mb duration width height final_size =
     (if max_bytes < of_int final_size then
        (let target_size_mb = fl (max_size_mb - BUFFER_MAX);
             target_bytes = target_size_mb * 1024 * 1024;
             video_bitrate =
               max min_bitrate
                 (min (fl (fl (target_bytes * 8 / duration) - audio_bitrate)) max_bitrate)
         in case enc video_bitrate (Some width) (Some height) of
              None \<Rightarrow> ([(video_bitrate, Some width, Some height)], Inl EncoderError)
            | Some final_size' \<Rightarrow>
                ([(video_bitrate, Some width, Some height)], Inr final_size'))
      else ([], Inr final_size))"

text \<open>
  \<open>compress_video_to_target\<close>.  \<open>video_info\<close> is what \<open>get_video_info\<close> returns
  of the input (duration, width, height), \<open>None\<close> when it raises.  The result
  is \<open>final_size_mb\<close>; the output path names the file of the last encoder call.
\<close>

definition compress_video_to_target ::
  "rounding \<Rightarrow> ffmpeg \<Rightarrow> (rat \<times> int \<times> int) option \<Rightarrow> rat
     \<Rightarrow> video_probe list \<times> (error + rat)" where
  "compress_video_to_target fl enc video_info max_size_mb0 =
     (case video_info of
        None \<Rightarrow> ([], Inl VideoInfoError)
      | Some (duration, width, height) \<Rightarrow>
          if duration \<le> 0 then ([], Inl InvalidDuration)
          else
            (let target_size_mb = fl (max_size_mb0 - BUFFER_AVG);
                 min_size_mb = fl (max_size_mb0 - BUFFER_MAX);
                 max_size_mb = fl (max_size_mb0 - BUFFER_MIN);
                 target_bytes = target_size_mb * 1024 * 1024;
                 min_bytes = min_size_mb * 1024 * 1024;
                 max_bytes = max_size_mb * 1024 * 1024;
                 video_bitrate = initial_bitrate fl target_bytes duration
             in case enc video_bitrate None None of
                  None \<Rightarrow> ([(video_bitrate, None, None)], Inl EncoderError)
                | Some size1 \<Rightarrow>
                    (case downscale fl enc max_bytes width height video_bitrate size1 of
                       (tr2, Inl e) \<Rightarrow> ((video_bitrate, None, None) # tr2, Inl e)
                     | (tr2, Inr size2) \<Rightarrow>
                         (case adjust_loop fl enc min_bytes max_bytes width height size2
                                 video_bitrate 1 of
                            (tr3, Inl e) \<Rightarrow> ((video_bitrate, None, None) # tr2 @ tr3, Inl e)
                          | (tr3, Inr (size3, bitrate3, attempt3)) \<Rightarrow>
                              (case final_check fl enc max_bytes max_size_mb duration width
                                      height size3 of
                                 (tr4, Inl e) \<Rightarrow>
                                   ((video_bitrate, None, None) # tr2 @ tr3 @ tr4, Inl e)
                               | (tr4, Inr final_size) \<Rightarrow>
                                   ((video_bitrate, None, None) # tr2 @ tr3 @ tr4,
                                    Inr (round2 fl (of_int final_size / (1024 * 1024)))))))))"

text \<open>A call of the video encoder whose bitrate is within the two limits.\<close>

definition in_bounds :: "video_probe \<Rightarrow> bool" where
  "in_bounds p = (min_bitrate \<le> fst p \<and> fst p \<le> max_bitrate)"


section \<open>The upload handler\<close>

text \<open>
  The video branch of \<open>compress_file\<close> (lines 141 to 172 of the application):
  the encoder call whose output the returned buffer holds, and the dictionary.
  \<open>size\<close> is the size of the upload in bytes.
\<close>

definition compress_file_video ::
  "rounding \<Rightarrow> ffmpeg \<Rightarrow> (rat \<times> int \<times> int) option \<Rightarrow> int \<Rightarrow> int
     \<Rightarrow> video_probe list \<times> (error + video_probe \<times> info)" where
  "compress_file_video fl enc video_info upload_size max_size_kb =
     (let target_size_mb = of_int max_size_kb / 1024
      in case compress_video_to_target fl enc video_info target_size_mb of
           (tr, Inl e) \<Rightarrow> (tr, Inl e)
         | (tr, Inr final_size_mb) \<Rightarrow>
             if upload_size = 0 then (tr, Inl ZeroDivisionError)
             else
               (tr, Inr (last tr,
                  [(''original_size'', VFloat (round2 fl (size_kb upload_size))),
                   (''compressed_size'', VFloat (round2 fl (final_size_mb * 1024))),
                   (''reduction_percent'',
                      VFloat (round2 fl
                        (fl (fl (1 - fl (final_size_mb * 1024 / size_kb upload_size)) * 100)))),
                   (''quality'',
                      quality_label fl (size_kb upload_size) (final_size_mb * 1024))])))"

section \<open>Example inputs\<close>



definition jpeg_image :: image where
  "jpeg_image = \<lparr>img_format = Some ''JPEG'', img_mode = ''RGB'', img_size = (800, 600)\<rparr>"

definition jpeg_upload :: "unit upload" where
  "jpeg_upload = \<lparr>file_size = 2000000, file_buffer = (), opened = Some jpeg_image,
     base_name = ''photo''\<rparr>"

definition psd_image :: image where
  "psd_image = \<lparr>img_format = Some ''PSD'', img_mode = ''RGB'', img_size = (800, 600)\<rparr>"

definition psd_upload :: "unit upload" where
  "psd_upload = \<lparr>file_size = 2000000, file_buffer = (), opened = Some psd_image,
     base_name = ''layers''\<rparr>"

section \<open>The binary search over the quality: unfolding and induction\<close>

lemma search_loop_stop:
  "\<not> (low \<le> high \<and> iterations < max_iterations) \<Longrightarrow>
   search_loop probe target_size tolerance_bytes low high iterations best = ([], Inr best)"
  by (subst search_loop.simps) auto

lemma search_loop_raise:
  "low \<le> high \<Longrightarrow> iterations < max_iterations \<Longrightarrow> probe ((low + high) div 2) = None \<Longrightarrow>
   search_loop probe target_size tolerance_bytes low high iterations best =
     ([(low + high) div 2], Inl EncoderError)"
  by (subst search_loop.simps) (simp add: Let_def)

lemma search_loop_break:
  "low \<le> high \<Longrightarrow> iterations < max_iterations \<Longrightarrow>
   probe ((low + high) div 2) = Some (buffer, sz) \<Longrightarrow> sz \<le> target_size \<Longrightarrow>
   of_int (target_size - sz) \<le> tolerance_bytes \<Longrightarrow>
   search_loop probe target_size tolerance_bytes low high iterations best =
     ([(low + high) div 2], Inr (buffer, sz, (low + high) div 2))"
  by (subst search_loop.simps) (simp add: Let_def)

lemma search_loop_up:
  "low \<le> high \<Longrightarrow> iterations < max_iterations \<Longrightarrow>
   probe ((low + high) div 2) = Some (buffer, sz) \<Longrightarrow> sz \<le> target_size \<Longrightarrow>
   \<not> of_int (target_size - sz) \<le> tolerance_bytes \<Longrightarrow>
   search_loop probe target_size tolerance_bytes low high iterations best =
     apfst (Cons ((low + high) div 2))
       (search_loop probe target_size tolerance_bytes ((low + high) div 2 + 1) high
          (Suc iterations) (buffer, sz, (low + high) div 2))"
  by (subst search_loop.simps) (simp add: Let_def)

lemma search_loop_down:
  "low \<le> high \<Longrightarrow> iterations < max_iterations \<Longrightarrow>
   probe ((low + high) div 2) = Some (buffer, sz) \<Longrightarrow> \<not> sz \<le> target_size \<Longrightarrow>
   search_loop probe target_size tolerance_bytes low high iterations best =
     apfst (Cons ((low + high) div 2))
       (search_loop probe target_size tolerance_bytes low ((low + high) div 2 - 1)
          (Suc iterations) best)"
  by (subst search_loop.simps) (simp add: Let_def)

lemmas search_loop_unfold =
  search_loop_stop search_loop_raise search_loop_break search_loop_up search_loop_down

text \<open>
  Induction along the iterations of the loop, one case for each way an
  iteration can go.
\<close>

lemma search_loop_cases_induct [case_names stop raise break up down]:
  fixes probe :: "int \<Rightarrow> ('b \<times> int) option"
  assumes stop: "\<And>low high iterations best.
      \<not> (low \<le> high \<and> iterations < max_iterations) \<Longrightarrow> P low high iterations best"
    and raise: "\<And>low high iterations best.
      low \<le> high \<Longrightarrow> iterations < max_iterations \<Longrightarrow> probe ((low + high) div 2) = None \<Longrightarrow>
      P low high iterations best"
    and break: "\<And>low high iterations best buffer sz.
      low \<le> high \<Longrightarrow> iterations < max_iterations \<Longrightarrow>
      probe ((low + high) div 2) = Some (buffer, sz) \<Longrightarrow> sz \<le> target_size \<Longrightarrow>
      of_int (target_size - sz) \<le> tolerance_bytes \<Longrightarrow> P low high iterations best"
    and up: "\<And>low high iterations best buffer sz.
      low \<le> high \<Longrightarrow> iterations < max_iterations \<Longrightarrow>
      probe ((low + high) div 2) = Some (buffer, sz) \<Longrightarrow> sz \<le> target_size \<Longrightarrow>
      \<not> of_int (target_size - sz) \<le> tolerance_bytes \<Longrightarrow>
      P ((low + high) div 2 + 1) high (Suc iterations) (buffer, sz, (low + high) div 2) \<Longrightarrow>
      P low high iterations best"
    and down: "\<And>low high iterations best buffer sz.
      low \<le> high \<Longrightarrow> iterations < max_iterations \<Longrightarrow>
      probe ((low + high) div 2) = Some (buffer, sz) \<Longrightarrow> \<not> sz \<le> target_size \<Longrightarrow>
      P low ((low + high) div 2 - 1) (Suc iterations) best \<Longrightarrow>
      P low high iterations best"
  shows "P low high iterations (best :: 'b best)"
proof (induction "max_iterations - iterations" arbitrary: low high iterations best)
  case 0
  then show ?case by (intro stop) simp
next
  case (Suc n)
  then have n: "n = max_iterations - Suc iterations" and lt: "iterations < max_iterations"
    by simp_all
  show ?case
  proof (cases "low \<le> high")
    case False
    then show ?thesis by (intro stop) simp
  next
    case True
    show ?thesis
    proof (cases "probe ((low + high) div 2)")
      case None
      with True lt show ?thesis by (rule raise)
    next
      case (Some p)
      obtain buffer sz where p: "p = (buffer, sz)" by (cases p)
      show ?thesis
      proof (cases "sz \<le> target_size")
        case False
        from True lt Some[unfolded p] False Suc.hyps(1)[OF n] show ?thesis by (rule down)
      next
        case fits: True
        show ?thesis
        proof (cases "of_int (target_size - sz) \<le> tolerance_bytes")
          case True
          from \<open>low \<le> high\<close> lt Some[unfolded p] fits True show ?thesis by (rule break)
        next
          case False
          from \<open>low \<le> high\<close> lt Some[unfolded p] fits False Suc.hyps(1)[OF n]
          show ?thesis by (rule up)
        qed
      qed
    qed
  qed
qed

section \<open>How many encoder calls a quality search makes\<close>

lemma search_loop_length:
  "length (fst (search_loop probe target_size tolerance_bytes low high iterations best))
     \<le> max_iterations - iterations"
  by (induction low high iterations best
      rule: search_loop_cases_induct[where probe = probe and target_size = target_size
              and tolerance_bytes = tolerance_bytes])
    (simp_all add: search_loop_unfold)

text \<open>Each iteration halves the interval, so few qualities need few iterations.\<close>

lemma search_loop_length_log:
  "high - low + 1 < 2 ^ k \<Longrightarrow>
   length (fst (search_loop probe target_size tolerance_bytes low high iterations best)) \<le> k"
proof (induction low high iterations best arbitrary: k
      rule: search_loop_cases_induct[where probe = probe and target_size = target_size
              and tolerance_bytes = tolerance_bytes])
  case (stop low high iterations best)
  then show ?case by (simp add: search_loop_stop)
next
  case (raise low high iterations best)
  then have "k \<noteq> 0" by (cases k) auto
  with raise show ?case by (simp add: search_loop_raise Suc_le_eq)
next
  case (break low high iterations best buffer sz)
  then have "k \<noteq> 0" by (cases k) auto
  with break show ?case by (simp add: search_loop_break Suc_le_eq)
next
  case (up low high iterations best buffer sz)
  from up.hyps(1) up.prems obtain k' where k: "k = Suc k'" by (cases k) auto
  have "high - ((low + high) div 2 + 1) + 1 < 2 ^ k'"
    using up.prems unfolding k by simp
  from up.IH[OF this] show ?case
    using up.hyps by (simp add: search_loop_up k)
next
  case (down low high iterations best buffer sz)
  from down.hyps(1) down.prems obtain k' where k: "k = Suc k'" by (cases k) auto
  have "(low + high) div 2 - 1 - low + 1 < 2 ^ k'"
    using down.prems unfolding k by simp
  from down.IH[OF this] show ?case
    using down.hyps by (simp add: search_loop_down k)
qed

lemma fine_tune_length:
  "length (fst (fine_tune probe target_size qs best)) \<le> length qs"
  by (induction probe target_size qs best rule: fine_tune.induct)
     (auto split: option.splits)

lemma fine_tune_range_length: "length (fine_tune_range best_quality max_quality) \<le> 4"
  by (simp add: fine_tune_range_def)

lemma search_loop_length_logD:
  "search_loop probe target_size tolerance_bytes low high iterations best = (tr, r) \<Longrightarrow>
   high - low + 1 < 2 ^ k \<Longrightarrow> length tr \<le> k"
  using search_loop_length_log[of high low k probe target_size tolerance_bytes iterations best]
  by simp

lemma search_loop_lengthD:
  "search_loop probe target_size tolerance_bytes low high iterations best = (tr, r) \<Longrightarrow>
   length tr \<le> max_iterations - iterations"
  using search_loop_length[of probe target_size tolerance_bytes low high iterations best]
  by simp

lemma fine_tune_lengthD:
  "fine_tune probe target_size (fine_tune_range best_quality max_quality) best = (tr, r) \<Longrightarrow>
   length tr \<le> 4"
  using fine_tune_length[of probe target_size "fine_tune_range best_quality max_quality" best]
    fine_tune_range_length[of best_quality max_quality]
  by simp

lemma binary_search_quality_length:
  assumes "max_quality - min_quality + 1 < 2 ^ k"
  shows "length (fst (binary_search_quality fl enc format target_size min_quality max_quality
            width height tolerance_pct)) \<le> 2 + k + 4"
  unfolding binary_search_quality_def Let_def
  by (auto split: option.splits prod.splits sum.splits
      dest!: search_loop_length_logD[OF _ assms] fine_tune_lengthD)

text \<open>
  The encoder calls of a quality search are, in order, the one or two calls at
  the bounds, the calls of the binary-search loop and the calls of the
  fine-tuning pass.
\<close>

lemma binary_search_quality_phases:
  "\<exists>bounds loop_calls refinement.
     fst (binary_search_quality fl enc format target_size min_quality max_quality width height
            tolerance_pct) = bounds @ loop_calls @ refinement
     \<and> (bounds = [max_quality] \<or> bounds = [max_quality, min_quality])
     \<and> (loop_calls = [] \<and> refinement = []
        \<or> (\<exists>buffer sz.
              enc format min_quality width height = Some (buffer, sz)
              \<and> bounds = [max_quality, min_quality]
              \<and> loop_calls
                  = fst (search_loop (\<lambda>q. enc format q width height) target_size
                           (fl (fl (of_int target_size * tolerance_pct) / 100))
                           min_quality max_quality 0 (buffer, sz, min_quality))
              \<and> (refinement = []
                 \<or> (\<exists>found.
                      snd (search_loop (\<lambda>q. enc format q width height) target_size
                             (fl (fl (of_int target_size * tolerance_pct) / 100))
                             min_quality max_quality 0 (buffer, sz, min_quality)) = Inr found
                      \<and> refinement
                          = fst (fine_tune (\<lambda>q. enc format q width height) target_size
                                   (fine_tune_range (snd (snd found)) max_quality) found)))))"
proof -
  let ?probe = "\<lambda>q. enc format q width height"
  let ?tol = "fl (fl (of_int target_size * tolerance_pct) / 100)"
  let ?run = "binary_search_quality fl enc format target_size min_quality max_quality width
      height tolerance_pct"
  let ?P = "\<lambda>bounds loop_calls refinement.
     fst ?run = bounds @ loop_calls @ refinement
     \<and> (bounds = [max_quality] \<or> bounds = [max_quality, min_quality])
     \<and> (loop_calls = [] \<and> refinement = []
        \<or> (\<exists>buffer sz.
              enc format min_quality width height = Some (buffer, sz)
              \<and> bounds = [max_quality, min_quality]
              \<and> loop_calls
                  = fst (search_loop ?probe target_size ?tol min_quality max_quality 0
                           (buffer, sz, min_quality))
              \<and> (refinement = []
                 \<or> (\<exists>found.
                      snd (search_loop ?probe target_size ?tol min_quality max_quality 0
                             (buffer, sz, min_quality)) = Inr found
                      \<and> refinement
                          = fst (fine_tune ?probe target_size
                                   (fine_tune_range (snd (snd found)) max_quality) found)))))"
  show ?thesis
  proof (cases "?probe max_quality")
    case None
    then have "?P [max_quality] [] []"
      by (simp add: binary_search_quality_def Let_def)
    then show ?thesis by blast
  next
    case top: (Some top_result)
    obtain top_buffer top_sz where top_result: "top_result = (top_buffer, top_sz)"
      by (cases top_result)
    show ?thesis
    proof (cases "top_sz \<le> target_size")
      case True
      with top top_result have "?P [max_quality] [] []"
        by (simp add: binary_search_quality_def Let_def)
      then show ?thesis by blast
    next
      case over: False
      show ?thesis
      proof (cases "?probe min_quality")
        case None
        with top top_result over have "?P [max_quality, min_quality] [] []"
          by (simp add: binary_search_quality_def Let_def)
        then show ?thesis by blast
      next
        case bottom: (Some bottom_result)
        obtain buffer sz where bottom_result: "bottom_result = (buffer, sz)"
          by (cases bottom_result)
        show ?thesis
        proof (cases "target_size < sz \<or> of_int (target_size - sz) \<le> ?tol")
          case True
          with top top_result over bottom bottom_result
          have "?P [max_quality, min_quality] [] []"
            by (auto simp: binary_search_quality_def Let_def)
          then show ?thesis by blast
        next
          case searching: False
          obtain tr1 r1 where loop: "search_loop ?probe target_size ?tol min_quality
              max_quality 0 (buffer, sz, min_quality) = (tr1, r1)"
            by (cases "search_loop ?probe target_size ?tol min_quality max_quality 0
                (buffer, sz, min_quality)")
          show ?thesis
          proof (cases r1)
            case (Inl e)
            with top top_result over bottom bottom_result searching loop
            have "?P [max_quality, min_quality] tr1 []"
              by (simp add: binary_search_quality_def Let_def)
            then show ?thesis by blast
          next
            case (Inr found)
            obtain b1 s1 q1 where found: "found = (b1, s1, q1)" by (cases found)
            obtain tr2 r2 where tune: "fine_tune ?probe target_size
                (fine_tune_range q1 max_quality) (b1, s1, q1) = (tr2, r2)"
              by (cases "fine_tune ?probe target_size (fine_tune_range q1 max_quality)
                  (b1, s1, q1)")
            have "fst ?run = [max_quality, min_quality] @ tr1 @ tr2"
              using top top_result over bottom bottom_result searching loop Inr found tune
              by (cases r2) (simp_all add: binary_search_quality_def Let_def)
            with bottom bottom_result loop Inr found tune
            have "?P [max_quality, min_quality] tr1 tr2"
              by simp
            then show ?thesis by blast
          qed
        qed
      qed
    qed
  qed
qed

text \<open>
  Claim C6.  \<open>binary_search_quality\<close> is a total function: its loop is a
  recursion on the iteration counter, which ends.  Whatever the bounds, the
  target and the encoder, the binary-search loop of a search makes at most 20
  encoder calls and the fine-tuning pass after it at most 4.  The one or two
  calls at the bounds come before the binary search and are not among these 24.
\<close>

theorem binary_search_quality_probe_bound:
  "\<exists>bounds loop_calls refinement.
     fst (binary_search_quality fl enc format target_size min_quality max_quality width height
            tolerance_pct) = bounds @ loop_calls @ refinement
     \<and> (bounds = [max_quality] \<or> bounds = [max_quality, min_quality])
     \<and> length loop_calls \<le> 20
     \<and> length refinement \<le> 4
     \<and> (loop_calls = [] \<and> refinement = []
        \<or> (\<exists>buffer sz.
              enc format min_quality width height = Some (buffer, sz)
              \<and> bounds = [max_quality, min_quality]
              \<and> loop_calls
                  = fst (search_loop (\<lambda>q. enc format q width height) target_size
                           (fl (fl (of_int target_size * tolerance_pct) / 100))
                           min_quality max_quality 0 (buffer, sz, min_quality))
              \<and> (refinement = []
                 \<or> (\<exists>found.
                      snd (search_loop (\<lambda>q. enc format q width height) target_size
                             (fl (fl (of_int target_size * tolerance_pct) / 100))
                             min_quality max_quality 0 (buffer, sz, min_quality)) = Inr found
                      \<and> refinement
                          = fst (fine_tune (\<lambda>q. enc format q width height) target_size
                                   (fine_tune_range (snd (snd found)) max_quality) found)))))"
proof -
  from binary_search_quality_phases[of fl enc format target_size min_quality max_quality width
      height tolerance_pct]
  obtain bounds loop_calls refinement where
    split: "fst (binary_search_quality fl enc format target_size min_quality max_quality width
            height tolerance_pct) = bounds @ loop_calls @ refinement"
    and bounds: "bounds = [max_quality] \<or> bounds = [max_quality, min_quality]"
    and phases: "loop_calls = [] \<and> refinement = []
        \<or> (\<exists>buffer sz.
              enc format min_quality width height = Some (buffer, sz)
              \<and> bounds = [max_quality, min_quality]
              \<and> loop_calls
                  = fst (search_loop (\<lambda>q. enc format q width height) target_size
                           (fl (fl (of_int target_size * tolerance_pct) / 100))
                           min_quality max_quality 0 (buffer, sz, min_quality))
              \<and> (refinement = []
                 \<or> (\<exists>found.
                      snd (search_loop (\<lambda>q. enc format q width height) target_size
                             (fl (fl (of_int target_size * tolerance_pct) / 100))
                             min_quality max_quality 0 (buffer, sz, min_quality)) = Inr found
                      \<and> refinement
                          = fst (fine_tune (\<lambda>q. enc format q width height) target_size
                                   (fine_tune_range (snd (snd found)) max_quality) found))))"
    by blast
  have loop: "length loop_calls \<le> 20"
    using phases search_loop_length[where iterations = 0]
    by (auto simp: max_iterations_def)
  have tune: "length refinement \<le> 4"
    using phases fine_tune_length fine_tune_range_length
    by (fastforce intro: order_trans)
  from split bounds loop tune phases show ?thesis by blast
qed

section \<open>The two calls at the bounds\<close>

text \<open>
  Claim C2.  The first encoder call of \<open>binary_search_quality\<close> is at the
  maximum quality.  When that call gives a size at or under the target, the
  search returns its buffer, size and quality at once, with no other call.  When
  it gives a size above the target, the second call is at the minimum quality,
  whatever comes of it; when that size too is above the target the search
  returns no result (\<open>(None, None, None)\<close>) after these two calls, and it
  returns no result in no other case.
\<close>

theorem binary_search_quality_bounds_first:
  "(\<exists>rest. fst (binary_search_quality fl enc format target_size min_quality max_quality width
                   height tolerance_pct) = max_quality # rest)
   \<and> (enc format max_quality width height = Some (buffer, sz) \<and> sz \<le> target_size \<longrightarrow>
        binary_search_quality fl enc format target_size min_quality max_quality width height
          tolerance_pct = ([max_quality], Inr (Some (buffer, sz, max_quality))))
   \<and> (enc format max_quality width height = Some (buffer, sz) \<and> target_size < sz \<longrightarrow>
        (\<exists>rest. fst (binary_search_quality fl enc format target_size min_quality max_quality
                        width height tolerance_pct) = max_quality # min_quality # rest))
   \<and> (enc format max_quality width height = Some (buffer, sz) \<and> target_size < sz
        \<and> enc format min_quality width height = Some (buffer', sz') \<and> target_size < sz' \<longrightarrow>
        binary_search_quality fl enc format target_size min_quality max_quality width height
          tolerance_pct = ([max_quality, min_quality], Inr None))
   \<and> (snd (binary_search_quality fl enc format target_size min_quality max_quality width height
              tolerance_pct) = Inr None \<longrightarrow>
        (\<exists>top_buffer top_sz bottom_buffer bottom_sz.
            enc format max_quality width height = Some (top_buffer, top_sz)
            \<and> target_size < top_sz
            \<and> enc format min_quality width height = Some (bottom_buffer, bottom_sz)
            \<and> target_size < bottom_sz))"
proof (intro conjI impI; (elim conjE)?)
  show "\<exists>rest. fst (binary_search_quality fl enc format target_size min_quality max_quality width
                   height tolerance_pct) = max_quality # rest"
    using binary_search_quality_phases[of fl enc format target_size min_quality max_quality
        width height tolerance_pct]
    by auto
next
  assume "enc format max_quality width height = Some (buffer, sz)" "sz \<le> target_size"
  then show "binary_search_quality fl enc format target_size min_quality max_quality width
      height tolerance_pct = ([max_quality], Inr (Some (buffer, sz, max_quality)))"
    by (simp add: binary_search_quality_def Let_def)
next
  assume top: "enc format max_quality width height = Some (buffer, sz)" "target_size < sz"
  show "\<exists>rest. fst (binary_search_quality fl enc format target_size min_quality max_quality
                        width height tolerance_pct) = max_quality # min_quality # rest"
    using top unfolding binary_search_quality_def Let_def
    by (auto split: option.splits prod.splits sum.splits)
next
  assume "enc format max_quality width height = Some (buffer, sz)" "target_size < sz"
    "enc format min_quality width height = Some (buffer', sz')" "target_size < sz'"
  then show "binary_search_quality fl enc format target_size min_quality max_quality width
      height tolerance_pct = ([max_quality, min_quality], Inr None)"
    by (simp add: binary_search_quality_def Let_def)
next
  assume "snd (binary_search_quality fl enc format target_size min_quality max_quality width
      height tolerance_pct) = Inr None"
  then show "\<exists>top_buffer top_sz bottom_buffer bottom_sz.
            enc format max_quality width height = Some (top_buffer, top_sz)
            \<and> target_size < top_sz
            \<and> enc format min_quality width height = Some (bottom_buffer, bottom_sz)
            \<and> target_size < bottom_sz"
    unfolding binary_search_quality_def Let_def
    by (auto split: option.splits prod.splits sum.splits if_splits)
qed

theorem binary_search_quality_bounds_first_witness:
  "binary_search_quality (\<lambda>x. x) (\<lambda>format q w h. Some (q, 10 * q)) ''JPEG'' 2000 1 95 None None 1
     = ([95], Inr (Some (95, 950, 95)))
   \<and> (\<exists>rest. fst (binary_search_quality (\<lambda>x. x) (\<lambda>format q w h. Some (q, 100 * q)) ''JPEG''
                     2000 1 95 None None 1) = 95 # 1 # rest)
   \<and> binary_search_quality (\<lambda>x. x) (\<lambda>format q w h. Some (q, 3000 + 10 * q)) ''JPEG'' 2000 1 95
       None None 1
     = ([95, 1], Inr None)
   \<and> (\<exists>top_buffer top_sz bottom_buffer bottom_sz.
         (\<lambda>format q w h. Some (q, 3000 + 10 * q)) ''JPEG'' (95 :: int) (None :: int option)
             (None :: int option) = Some (top_buffer, top_sz)
         \<and> 2000 < top_sz
         \<and> (\<lambda>format q w h. Some (q, 3000 + 10 * q)) ''JPEG'' (1 :: int) (None :: int option)
               (None :: int option) = Some (bottom_buffer, bottom_sz)
         \<and> 2000 < bottom_sz)"
proof (intro conjI)
  note fits = binary_search_quality_bounds_first
    [where fl = "\<lambda>x. x" and enc = "\<lambda>format q w h. Some (q, 10 * q)" and format = "''JPEG''"
       and target_size = 2000 and min_quality = 1 and max_quality = 95 and width = None
       and height = None and tolerance_pct = 1 and buffer = 95 and sz = 950]
  have a: "Some (95 :: int, 10 * 95 :: int) = Some (95, 950) \<and> (950 :: int) \<le> 2000"
    by simp
  show "binary_search_quality (\<lambda>x. x) (\<lambda>format q w h. Some (q, 10 * q)) ''JPEG'' 2000 1 95 None None 1
     = ([95], Inr (Some (95, 950, 95)))"
    by (rule fits[THEN conjunct2, THEN conjunct1, THEN mp, OF a])
  note searched = binary_search_quality_bounds_first
    [where fl = "\<lambda>x. x" and enc = "\<lambda>format q w h. Some (q, 100 * q)" and format = "''JPEG''"
       and target_size = 2000 and min_quality = 1 and max_quality = 95 and width = None
       and height = None and tolerance_pct = 1 and buffer = 95 and sz = 9500]
  have c: "Some (95 :: int, 100 * 95 :: int) = Some (95, 9500) \<and> (2000 :: int) < 9500"
    by simp
  show "\<exists>rest. fst (binary_search_quality (\<lambda>x. x) (\<lambda>format q w h. Some (q, 100 * q)) ''JPEG''
                     2000 1 95 None None 1) = 95 # 1 # rest"
    by (rule searched[THEN conjunct2, THEN conjunct2, THEN conjunct1, THEN mp, OF c])
  note infeasible = binary_search_quality_bounds_first
    [where fl = "\<lambda>x. x" and enc = "\<lambda>format q w h. Some (q, 3000 + 10 * q)"
       and format = "''JPEG''" and target_size = 2000 and min_quality = 1 and max_quality = 95
       and width = None and height = None and tolerance_pct = 1 and buffer = 95 and sz = 3950
       and buffer' = 1 and sz' = 3010]
  have b: "Some (95 :: int, 3000 + 10 * 95 :: int) = Some (95, 3950) \<and> (2000 :: int) < 3950
      \<and> Some (1 :: int, 3000 + 10 * 1 :: int) = Some (1, 3010) \<and> (2000 :: int) < 3010"
    by simp
  show "binary_search_quality (\<lambda>x. x) (\<lambda>format q w h. Some (q, 3000 + 10 * q)) ''JPEG'' 2000 1 95
       None None 1
     = ([95, 1], Inr None)"
    by (rule infeasible[THEN conjunct2, THEN conjunct2, THEN conjunct2, THEN conjunct1, THEN mp,
          OF b])
  have d: "snd (binary_search_quality (\<lambda>x. x) (\<lambda>format q w h. Some (q, 3000 + 10 * q)) ''JPEG''
      2000 1 95 None None 1) = Inr None"
    by code_simp
  show "\<exists>top_buffer top_sz bottom_buffer bottom_sz.
         (\<lambda>format q w h. Some (q, 3000 + 10 * q)) ''JPEG'' (95 :: int) (None :: int option)
             (None :: int option) = Some (top_buffer, top_sz)
         \<and> 2000 < top_sz
         \<and> (\<lambda>format q w h. Some (q, 3000 + 10 * q)) ''JPEG'' (1 :: int) (None :: int option)
               (None :: int option) = Some (bottom_buffer, bottom_sz)
         \<and> 2000 < bottom_sz"
    by (rule infeasible[THEN conjunct2, THEN conjunct2, THEN conjunct2, THEN conjunct2, THEN mp,
          OF d])
qed


section \<open>The tier table of the PDF compressor\<close>

lemma CUSTOM_QUALITY_LEVELS_length: "length (CUSTOM_QUALITY_LEVELS fl) = 11"
  by (simp add: CUSTOM_QUALITY_LEVELS_def)

lemma CUSTOM_QUALITY_LEVELS_last:
  "last (CUSTOM_QUALITY_LEVELS fl) = \<lparr>quality_factor = 1, gs_preset = ''/prepress'', dpi = 400\<rparr>"
  by (simp add: CUSTOM_QUALITY_LEVELS_def)

lemma CUSTOM_QUALITY_LEVELS_sorted:
  assumes mono: "\<forall>x y. x \<le> y \<longrightarrow> fl x \<le> fl y"
    and fixed: "fl 0 = 0" "fl (1 / 2) = 1 / 2" "fl 1 = 1"
  shows "sorted (map quality_factor (CUSTOM_QUALITY_LEVELS fl))"
proof -
  have le: "\<And>x y. x \<le> y \<Longrightarrow> fl x \<le> fl y" using mono by blast
  have "0 \<le> fl (1 / 10)" using le[of 0 "1 / 10"] fixed by simp
  moreover have "fl (1 / 10) \<le> fl (2 / 10)" by (rule le) simp
  moreover have "fl (2 / 10) \<le> fl (3 / 10)" by (rule le) simp
  moreover have "fl (3 / 10) \<le> fl (4 / 10)" by (rule le) simp
  moreover have "fl (4 / 10) \<le> 1 / 2" using le[of "4 / 10" "1 / 2"] fixed by simp
  moreover have "1 / 2 \<le> fl (6 / 10)" using le[of "1 / 2" "6 / 10"] fixed by simp
  moreover have "fl (6 / 10) \<le> fl (7 / 10)" by (rule le) simp
  moreover have "fl (7 / 10) \<le> fl (8 / 10)" by (rule le) simp
  moreover have "fl (8 / 10) \<le> fl (9 / 10)" by (rule le) simp
  moreover have "fl (9 / 10) \<le> 1" using le[of "9 / 10" 1] fixed by simp
  ultimately show ?thesis
    by (simp add: CUSTOM_QUALITY_LEVELS_def)
qed

lemma get_settings_in_range:
  assumes "factor \<le> 1"
  shows "\<exists>i<11. get_settings_for_quality_factor fl factor = CUSTOM_QUALITY_LEVELS fl ! i
           \<and> factor \<le> quality_factor (CUSTOM_QUALITY_LEVELS fl ! i)
           \<and> (\<forall>j<i. quality_factor (CUSTOM_QUALITY_LEVELS fl ! j) < factor)"
proof -
  let ?P = "\<lambda>level. factor \<le> quality_factor level"
  have "last (CUSTOM_QUALITY_LEVELS fl) \<in> set (CUSTOM_QUALITY_LEVELS fl)"
    by (simp add: CUSTOM_QUALITY_LEVELS_def)
  moreover have "?P (last (CUSTOM_QUALITY_LEVELS fl))"
    using assms by (simp add: CUSTOM_QUALITY_LEVELS_last)
  ultimately have "find ?P (CUSTOM_QUALITY_LEVELS fl) \<noteq> None"
    unfolding find_None_iff by blast
  then obtain level where found: "find ?P (CUSTOM_QUALITY_LEVELS fl) = Some level"
    by blast
  then obtain i where "i < length (CUSTOM_QUALITY_LEVELS fl)"
      "?P (CUSTOM_QUALITY_LEVELS fl ! i)" "level = CUSTOM_QUALITY_LEVELS fl ! i"
      "\<forall>j<i. \<not> ?P (CUSTOM_QUALITY_LEVELS fl ! j)"
    unfolding find_Some_iff by blast
  then show ?thesis
    using found
    by (auto simp: get_settings_for_quality_factor_def CUSTOM_QUALITY_LEVELS_length not_le
        intro!: exI[of _ i])
qed

lemma get_settings_above:
  assumes "list_all (\<lambda>level. quality_factor level < factor) (CUSTOM_QUALITY_LEVELS fl)"
  shows "get_settings_for_quality_factor fl factor = last (CUSTOM_QUALITY_LEVELS fl)"
proof -
  have "find (\<lambda>level. factor \<le> quality_factor level) (CUSTOM_QUALITY_LEVELS fl) = None"
    unfolding find_None_iff using assms by (auto simp: list_all_iff)
  then show ?thesis by (simp add: get_settings_for_quality_factor_def)
qed

text \<open>
  Claim C8.  The table has 11 levels, and their quality factors ascend (for a
  rounding of the decimal literals that is monotone and leaves the doubles 0,
  0.5 and 1 as they are).  For every factor from 0 to 1 the lookup returns the
  first level of the table whose quality factor is at least the factor: the
  level at some index \<open>i\<close>, with every level before \<open>i\<close> below the factor.  For
  a factor above every quality factor of the table it returns the last level,
  the highest tier (\<open>/prepress\<close> at 400 dpi).
\<close>

theorem get_settings_for_quality_factor_first:
  "length (CUSTOM_QUALITY_LEVELS fl) = 11
   \<and> ((\<forall>x y. x \<le> y \<longrightarrow> fl x \<le> fl y) \<and> fl 0 = 0 \<and> fl (1 / 2) = 1 / 2 \<and> fl 1 = 1 \<longrightarrow>
        sorted (map quality_factor (CUSTOM_QUALITY_LEVELS fl)))
   \<and> (0 \<le> factor \<and> factor \<le> 1 \<longrightarrow>
        (\<exists>i<11. get_settings_for_quality_factor fl factor = CUSTOM_QUALITY_LEVELS fl ! i
           \<and> factor \<le> quality_factor (CUSTOM_QUALITY_LEVELS fl ! i)
           \<and> (\<forall>j<i. quality_factor (CUSTOM_QUALITY_LEVELS fl ! j) < factor)))
   \<and> (list_all (\<lambda>level. quality_factor level < factor) (CUSTOM_QUALITY_LEVELS fl) \<longrightarrow>
        get_settings_for_quality_factor fl factor = last (CUSTOM_QUALITY_LEVELS fl)
        \<and> last (CUSTOM_QUALITY_LEVELS fl)
            = \<lparr>quality_factor = 1, gs_preset = ''/prepress'', dpi = 400\<rparr>)"
  using CUSTOM_QUALITY_LEVELS_length[of fl] CUSTOM_QUALITY_LEVELS_sorted[of fl]
    get_settings_in_range[of factor fl] get_settings_above[of factor fl]
    CUSTOM_QUALITY_LEVELS_last[of fl]
  by blast

theorem get_settings_for_quality_factor_first_witness:
  "sorted (map quality_factor (CUSTOM_QUALITY_LEVELS (\<lambda>x. x)))
   \<and> (\<exists>i<11. get_settings_for_quality_factor (\<lambda>x. x) (3 / 4) = CUSTOM_QUALITY_LEVELS (\<lambda>x. x) ! i
         \<and> 3 / 4 \<le> quality_factor (CUSTOM_QUALITY_LEVELS (\<lambda>x. x) ! i)
         \<and> (\<forall>j<i. quality_factor (CUSTOM_QUALITY_LEVELS (\<lambda>x. x) ! j) < 3 / 4))
   \<and> get_settings_for_quality_factor (\<lambda>x. x) (3 / 4)
       = \<lparr>quality_factor = 8 / 10, gs_preset = ''/printer'', dpi = 300\<rparr>
   \<and> get_settings_for_quality_factor (\<lambda>x. x) 2
       = \<lparr>quality_factor = 1, gs_preset = ''/prepress'', dpi = 400\<rparr>"
proof (intro conjI)
  note t = get_settings_for_quality_factor_first[where fl = "\<lambda>x. x"]
  have r: "(\<forall>x y :: rat. x \<le> y \<longrightarrow> x \<le> y) \<and> (0 :: rat) = 0 \<and> (1 / 2 :: rat) = 1 / 2
      \<and> (1 :: rat) = 1"
    by simp
  show "sorted (map quality_factor (CUSTOM_QUALITY_LEVELS (\<lambda>x. x)))"
    by (rule t[THEN conjunct2, THEN conjunct1, THEN mp, OF r])
  have f: "(0 :: rat) \<le> 3 / 4 \<and> (3 / 4 :: rat) \<le> 1" by simp
  show "\<exists>i<11. get_settings_for_quality_factor (\<lambda>x. x) (3 / 4) = CUSTOM_QUALITY_LEVELS (\<lambda>x. x) ! i
         \<and> 3 / 4 \<le> quality_factor (CUSTOM_QUALITY_LEVELS (\<lambda>x. x) ! i)
         \<and> (\<forall>j<i. quality_factor (CUSTOM_QUALITY_LEVELS (\<lambda>x. x) ! j) < 3 / 4)"
    by (rule t[where factor = "3 / 4", THEN conjunct2, THEN conjunct2, THEN conjunct1,
               THEN mp, OF f])
  show "get_settings_for_quality_factor (\<lambda>x. x) (3 / 4)
       = \<lparr>quality_factor = 8 / 10, gs_preset = ''/printer'', dpi = 300\<rparr>"
    by (simp add: get_settings_for_quality_factor_def CUSTOM_QUALITY_LEVELS_def)
  have above: "list_all (\<lambda>level. quality_factor level < 2) (CUSTOM_QUALITY_LEVELS (\<lambda>x. x))"
    by (simp add: CUSTOM_QUALITY_LEVELS_def)
  from t[where factor = 2, THEN conjunct2, THEN conjunct2, THEN conjunct2, THEN mp, OF above]
  show "get_settings_for_quality_factor (\<lambda>x. x) 2
       = \<lparr>quality_factor = 1, gs_preset = ''/prepress'', dpi = 400\<rparr>"
    by simp
qed


section \<open>The bitrate loop of the video compressor\<close>

lemma initial_bitrate_bounds:
  "min_bitrate \<le> initial_bitrate fl target_bytes duration
   \<and> initial_bitrate fl target_bytes duration \<le> max_bitrate"
  by (simp add: initial_bitrate_def Let_def min_bitrate_def max_bitrate_def)

lemma adjust_bitrate_bounds:
  "min_bitrate \<le> adjust_bitrate fl max_bytes final_size video_bitrate
   \<and> adjust_bitrate fl max_bytes final_size video_bitrate \<le> max_bitrate"
  by (simp add: adjust_bitrate_def Let_def min_bitrate_def max_bitrate_def)

lemma adjust_loop_stop:
  "\<not> (\<not> (min_bytes \<le> of_int final_size \<and> of_int final_size \<le> max_bytes)
       \<and> attempt \<le> max_attempts) \<Longrightarrow>
   adjust_loop fl enc min_bytes max_bytes width height final_size video_bitrate attempt
     = ([], Inr (final_size, video_bitrate, attempt))"
  by (subst adjust_loop.simps) auto

lemma adjust_loop_raise:
  "\<not> (min_bytes \<le> of_int final_size \<and> of_int final_size \<le> max_bytes) \<Longrightarrow>
   attempt \<le> max_attempts \<Longrightarrow>
   enc (adjust_bitrate fl max_bytes final_size video_bitrate) (Some width) (Some height) = None \<Longrightarrow>
   adjust_loop fl enc min_bytes max_bytes width height final_size video_bitrate attempt
     = ([(adjust_bitrate fl max_bytes final_size video_bitrate, Some width, Some height)],
        Inl EncoderError)"
  by (subst adjust_loop.simps) auto

lemma adjust_loop_step:
  "\<not> (min_bytes \<le> of_int final_size \<and> of_int final_size \<le> max_bytes) \<Longrightarrow>
   attempt \<le> max_attempts \<Longrightarrow>
   enc (adjust_bitrate fl max_bytes final_size video_bitrate) (Some width) (Some height)
     = Some final_size' \<Longrightarrow>
   adjust_loop fl enc min_bytes max_bytes width height final_size video_bitrate attempt
     = apfst (Cons (adjust_bitrate fl max_bytes final_size video_bitrate, Some width, Some height))
         (adjust_loop fl enc min_bytes max_bytes width height final_size'
            (adjust_bitrate fl max_bytes final_size video_bitrate) (Suc attempt))"
  by (subst adjust_loop.simps) auto

lemma adjust_loop_cases_induct [case_names stop raise step]:
  assumes stop: "\<And>final_size video_bitrate attempt.
      \<not> (\<not> (min_bytes \<le> of_int final_size \<and> of_int final_size \<le> max_bytes)
          \<and> attempt \<le> max_attempts) \<Longrightarrow> P final_size video_bitrate attempt"
    and raise: "\<And>final_size video_bitrate attempt.
      \<not> (min_bytes \<le> of_int final_size \<and> of_int final_size \<le> max_bytes) \<Longrightarrow>
      attempt \<le> max_attempts \<Longrightarrow>
      enc (adjust_bitrate fl max_bytes final_size video_bitrate) (Some width) (Some height)
        = None \<Longrightarrow>
      P final_size video_bitrate attempt"
    and step: "\<And>final_size video_bitrate attempt final_size'.
      \<not> (min_bytes \<le> of_int final_size \<and> of_int final_size \<le> max_bytes) \<Longrightarrow>
      attempt \<le> max_attempts \<Longrightarrow>
      enc (adjust_bitrate fl max_bytes final_size video_bitrate) (Some width) (Some height)
        = Some final_size' \<Longrightarrow>
      P final_size' (adjust_bitrate fl max_bytes final_size video_bitrate) (Suc attempt) \<Longrightarrow>
      P final_size video_bitrate attempt"
  shows "P (final_size :: int) (video_bitrate :: rat) (attempt :: nat)"
proof (induction "max_attempts + 1 - attempt" arbitrary: final_size video_bitrate attempt)
  case 0
  then show ?case by (intro stop) simp
next
  case (Suc n)
  then have n: "n = max_attempts + 1 - Suc attempt" and le: "attempt \<le> max_attempts"
    by simp_all
  show ?case
  proof (cases "min_bytes \<le> of_int final_size \<and> of_int final_size \<le> max_bytes")
    case True
    then show ?thesis by (intro stop) simp
  next
    case False
    show ?thesis
    proof (cases "enc (adjust_bitrate fl max_bytes final_size video_bitrate)
                    (Some width) (Some height)")
      case None
      with False le show ?thesis by (rule raise)
    next
      case (Some final_size')
      from False le Some Suc.hyps(1)[OF n] show ?thesis by (rule step)
    qed
  qed
qed

lemma adjust_loop_bounds:
  "list_all in_bounds
     (fst (adjust_loop fl enc min_bytes max_bytes width height final_size video_bitrate attempt))"
proof (induction final_size video_bitrate attempt
    rule: adjust_loop_cases_induct[where min_bytes = min_bytes and max_bytes = max_bytes
            and enc = enc and fl = fl and width = width and height = height])
  case (stop final_size video_bitrate attempt)
  then show ?case by (simp add: adjust_loop_stop)
next
  case (raise final_size video_bitrate attempt)
  then show ?case by (simp add: adjust_loop_raise in_bounds_def adjust_bitrate_bounds)
next
  case (step final_size video_bitrate attempt final_size')
  then show ?case by (simp add: adjust_loop_step in_bounds_def adjust_bitrate_bounds)
qed

lemma adjust_loop_exit:
  "adjust_loop fl enc min_bytes max_bytes width height final_size video_bitrate attempt
     = (tr, Inr (final_size', video_bitrate', attempt')) \<Longrightarrow>
   attempt \<le> max_attempts + 1 \<Longrightarrow>
   (min_bytes \<le> of_int final_size' \<and> of_int final_size' \<le> max_bytes
      \<or> attempt' = max_attempts + 1)
   \<and> attempt + length tr = attempt'"
proof (induction final_size video_bitrate attempt arbitrary: tr
    rule: adjust_loop_cases_induct[where min_bytes = min_bytes and max_bytes = max_bytes
            and enc = enc and fl = fl and width = width and height = height])
  case (stop final_size video_bitrate attempt)
  then show ?case by (auto simp: adjust_loop_stop)
next
  case (raise final_size video_bitrate attempt)
  then show ?case by (simp add: adjust_loop_raise)
next
  case (step final_size video_bitrate attempt final_size'')
  from step.prems(1) step.hyps obtain tr' where tr: "tr = (adjust_bitrate fl max_bytes final_size video_bitrate, Some width, Some height) # tr'"
    and rec: "adjust_loop fl enc min_bytes max_bytes width height final_size''
            (adjust_bitrate fl max_bytes final_size video_bitrate) (Suc attempt)
          = (tr', Inr (final_size', video_bitrate', attempt'))"
    by (cases "adjust_loop fl enc min_bytes max_bytes width height final_size''
            (adjust_bitrate fl max_bytes final_size video_bitrate) (Suc attempt)")
       (auto simp: adjust_loop_step)
  from step.IH[OF rec] step.hyps(2) show ?case
    by (simp add: tr)
qed


lemma adjust_loop_boundsD:
  "adjust_loop fl enc min_bytes max_bytes width height final_size video_bitrate attempt = (tr, r)
   \<Longrightarrow> list_all in_bounds tr"
  using adjust_loop_bounds[of fl enc min_bytes max_bytes width height final_size video_bitrate
      attempt]
  by simp

lemma downscale_bounds:
  "downscale fl enc max_bytes width height video_bitrate final_size = (tr, r) \<Longrightarrow>
   in_bounds (video_bitrate, None, None) \<Longrightarrow> list_all in_bounds tr"
  by (auto simp: downscale_def Let_def in_bounds_def split: if_splits option.splits)

lemma final_check_bounds:
  "final_check fl enc max_bytes max_size_mb duration width height final_size = (tr, r) \<Longrightarrow>
   list_all in_bounds tr"
  by (auto simp: final_check_def Let_def in_bounds_def min_bitrate_def max_bitrate_def
      split: if_splits option.splits)

lemma compress_video_to_target_bounds:
  "list_all in_bounds (fst (compress_video_to_target fl enc video_info max_size_mb0))"
proof -
  have init: "\<And>t d. in_bounds (initial_bitrate fl t d, None, None)"
    using initial_bitrate_bounds by (simp add: in_bounds_def)
  show ?thesis
    unfolding compress_video_to_target_def Let_def
    by (auto split: option.splits prod.splits sum.splits
        dest!: adjust_loop_boundsD final_check_bounds downscale_bounds[OF _ init]
        simp: init)
qed

text \<open>
  Claim C9.  The limits are 100000 and 4000000 bits per second and the loop has
  at most 4 attempts.  The first bitrate is within the limits, and so is the
  bitrate of every attempt of the loop (each is made by \<open>adjust_bitrate\<close>) and
  of every encoder call of \<open>compress_video_to_target\<close>, whatever the rounding
  of the float arithmetic.  When the loop, entered at attempt 1, comes to its
  end, the last size is within \<open>[min_bytes, max_bytes]\<close> or the four attempts
  are used up.
\<close>

theorem bitrate_bounds_and_loop_exit:
  "min_bitrate = 100000 \<and> max_bitrate = 4000000 \<and> max_attempts = 4
   \<and> in_bounds (initial_bitrate fl target_bytes duration, None, None)
   \<and> in_bounds (adjust_bitrate fl max_bytes final_size video_bitrate, Some width, Some height)
   \<and> list_all in_bounds
        (fst (adjust_loop fl enc min_bytes max_bytes width height final_size video_bitrate
                attempt))
   \<and> list_all in_bounds (fst (compress_video_to_target fl enc video_info max_size_mb))
   \<and> (adjust_loop fl enc min_bytes max_bytes width height final_size video_bitrate 1
         = (tr, Inr (final_size', video_bitrate', attempt')) \<longrightarrow>
       (min_bytes \<le> of_int final_size' \<and> of_int final_size' \<le> max_bytes)
       \<or> (attempt' = max_attempts + 1 \<and> length tr = max_attempts))"
proof -
  have "adjust_loop fl enc min_bytes max_bytes width height final_size video_bitrate 1
         = (tr, Inr (final_size', video_bitrate', attempt')) \<Longrightarrow>
       (min_bytes \<le> of_int final_size' \<and> of_int final_size' \<le> max_bytes)
       \<or> (attempt' = max_attempts + 1 \<and> length tr = max_attempts)"
    using adjust_loop_exit[of fl enc min_bytes max_bytes width height final_size video_bitrate 1
        tr final_size' video_bitrate' attempt']
    by (auto simp: max_attempts_def)
  then show ?thesis
    using initial_bitrate_bounds[of fl target_bytes duration]
      adjust_bitrate_bounds[of fl max_bytes final_size video_bitrate]
      adjust_loop_bounds[of fl enc min_bytes max_bytes width height final_size video_bitrate
        attempt]
      compress_video_to_target_bounds[of fl enc video_info max_size_mb]
    by (simp add: in_bounds_def min_bitrate_def max_bitrate_def max_attempts_def)
qed

theorem bitrate_bounds_and_loop_exit_witness:
  "adjust_loop (\<lambda>x. x) (\<lambda>b w h. Some 1000) 29360128 30408704 1000 500 1000 4000000 1
     = (replicate 4 (4000000, Some 1000, Some 500), Inr (1000, 4000000, 5))
   \<and> ((29360128 \<le> rat_of_int 1000 \<and> rat_of_int 1000 \<le> 30408704)
       \<or> (5 = max_attempts + 1
           \<and> length (replicate 4 (4000000 :: rat, Some (1000 :: int), Some (500 :: int)))
               = max_attempts))"
proof
  show run: "adjust_loop (\<lambda>x. x) (\<lambda>b w h. Some 1000) 29360128 30408704 1000 500 1000 4000000 1
     = (replicate 4 (4000000, Some 1000, Some 500), Inr (1000, 4000000, 5))"
    by code_simp
  show "(29360128 \<le> rat_of_int 1000 \<and> rat_of_int 1000 \<le> 30408704)
       \<or> (5 = max_attempts + 1
           \<and> length (replicate 4 (4000000 :: rat, Some (1000 :: int), Some (500 :: int)))
               = max_attempts)"
    by (rule bitrate_bounds_and_loop_exit
          [THEN conjunct2, THEN conjunct2, THEN conjunct2, THEN conjunct2, THEN conjunct2,
           THEN conjunct2, THEN conjunct2, THEN mp, OF run])
qed

section \<open>The resolution the bitrate loop encodes at\<close>

lemma adjust_loop_dimensions:
  "list_all (\<lambda>p. snd p = (Some width, Some height))
     (fst (adjust_loop fl enc min_bytes max_bytes width height final_size video_bitrate attempt))"
proof (induction final_size video_bitrate attempt
    rule: adjust_loop_cases_induct[where min_bytes = min_bytes and max_bytes = max_bytes
            and enc = enc and fl = fl and width = width and height = height])
  case (stop final_size video_bitrate attempt)
  then show ?case by (simp add: adjust_loop_stop)
next
  case (raise final_size video_bitrate attempt)
  then show ?case by (simp add: adjust_loop_raise)
next
  case (step final_size video_bitrate attempt final_size')
  then show ?case by (simp add: adjust_loop_step)
qed

text \<open>
  Claim C4, evaluated: a 64-second video of 1000 by 500 pixels with a maximum of
  30 MB, so that the band is 29360128 to 30408704 bytes and the first bitrate
  3607552.  The first encoding (31000000 bytes) is above the band, and the code
  encodes again at 800 by 400 with the same bitrate, as the claim says.  That
  encoding (30500000 bytes) is still above the band, and the first attempt of
  the loop, at nine tenths of the bitrate, encodes at 1000 by 500: lines 188
  and 189 pass \<open>width\<close> and \<open>height\<close>, not \<open>new_width\<close> and \<open>new_height\<close>.
  By \<open>adjust_loop_dimensions\<close> this is so for every attempt of every run.
\<close>

theorem compress_video_to_target_downscale_lost:
  "fst (compress_video_to_target (\<lambda>x. x)
          (\<lambda>b w h. Some (if b = 3607552 then (if w = Some 800 then 30500000 else 31000000)
                          else 30000000))
          (Some (64, 1000, 500)) 30)
     = [(3607552, None, None), (3607552, Some 800, Some 400),
        (16233984 / 5, Some 1000, Some 500)]"
  by code_simp


section \<open>What the quality search returns\<close>



text \<open>The mids lie within the interval, and no mid is probed twice.\<close>

lemma search_loop_within:
  "set (fst (search_loop probe target_size tolerance_bytes low high iterations best))
     \<subseteq> {low..high}"
proof (induction low high iterations best
      rule: search_loop_cases_induct[where probe = probe and target_size = target_size
              and tolerance_bytes = tolerance_bytes])
  case (stop low high iterations best)
  then show ?case by (simp add: search_loop_stop)
next
  case (raise low high iterations best)
  then show ?case by (simp add: search_loop_raise) linarith
next
  case (break low high iterations best buffer sz)
  then show ?case by (simp add: search_loop_break) linarith
next
  case (up low high iterations best buffer sz)
  have "low \<le> (low + high) div 2" "(low + high) div 2 \<le> high"
    using up.hyps(1) by linarith+
  with up show ?case by (auto simp: search_loop_up)
next
  case (down low high iterations best buffer sz)
  have "low \<le> (low + high) div 2" "(low + high) div 2 \<le> high"
    using down.hyps(1) by linarith+
  with down show ?case by (auto simp: search_loop_down)
qed

lemma search_loop_distinct:
  "distinct (fst (search_loop probe target_size tolerance_bytes low high iterations best))"
proof (induction low high iterations best
      rule: search_loop_cases_induct[where probe = probe and target_size = target_size
              and tolerance_bytes = tolerance_bytes])
  case (stop low high iterations best)
  then show ?case by (simp add: search_loop_stop)
next
  case (raise low high iterations best)
  then show ?case by (simp add: search_loop_raise)
next
  case (break low high iterations best buffer sz)
  then show ?case by (simp add: search_loop_break)
next
  case (up low high iterations best buffer sz)
  have "(low + high) div 2 \<notin> set (fst (search_loop probe target_size tolerance_bytes
          ((low + high) div 2 + 1) high (Suc iterations) (buffer, sz, (low + high) div 2)))"
    using search_loop_within[of probe target_size tolerance_bytes "(low + high) div 2 + 1" high
        "Suc iterations" "(buffer, sz, (low + high) div 2)"]
    by auto
  with up show ?case by (simp add: search_loop_up)
next
  case (down low high iterations best buffer sz)
  have "(low + high) div 2 \<notin> set (fst (search_loop probe target_size tolerance_bytes low
          ((low + high) div 2 - 1) (Suc iterations) best))"
    using search_loop_within[of probe target_size tolerance_bytes low "(low + high) div 2 - 1"
        "Suc iterations" best]
    by auto
  with down show ?case by (simp add: search_loop_down)
qed




lemma fine_tune_within:
  "set (fst (fine_tune probe target_size qs best)) \<subseteq> set qs
   \<and> (distinct qs \<longrightarrow> distinct (fst (fine_tune probe target_size qs best)))"
proof (induction qs arbitrary: best)
  case Nil
  then show ?case by simp
next
  case (Cons q qs)
  obtain b s bq where best: "best = (b, s, bq)" by (cases best)
  show ?case
    unfolding best using Cons.IH
    by (auto split: option.splits)
qed











section \<open>The dimension ladder\<close>

lemma none_fits_append:
  "none_fits enc target_size (xs @ ys) = (none_fits enc target_size xs \<and> none_fits enc target_size ys)"
  by (simp add: none_fits_def)









section \<open>The runs of the image compressor\<close>











section \<open>The format the image compressor encodes in\<close>











section \<open>The floor of the image compressor\<close>

lemma finish_returns:
  "file_size file \<noteq> 0 \<Longrightarrow>
   finish fl file img format max_size_kb (Some (buffer, sz, q)) resized dims
     = Inr (buffer, base_name file @ ''_compressed.'' @ lower format,
            compression_info fl (file_size file) sz q img dims resized format max_size_kb
              (max_size_kb * 1024))"
  by (simp add: finish_def)

text \<open>
  A run that ends in an exception has made an encoder call that raised: the
  exceptions of lines 284 and 295 cannot happen where the source is larger than
  a target that is not negative.
\<close>

lemma search_loop_raises_fst:
  "isl (snd (search_loop probe target_size tolerance_bytes low high iterations best)) \<Longrightarrow>
   \<exists>q\<in>set (fst (search_loop probe target_size tolerance_bytes low high iterations best)).
     probe q = None"
proof (induction low high iterations best
      rule: search_loop_cases_induct[where probe = probe and target_size = target_size
              and tolerance_bytes = tolerance_bytes])
  case (stop low high iterations best)
  then show ?case by (simp add: search_loop_stop)
next
  case (raise low high iterations best)
  then show ?case by (simp add: search_loop_raise)
next
  case (break low high iterations best buffer sz)
  then show ?case by (simp add: search_loop_break)
next
  case (up low high iterations best buffer sz)
  then show ?case by (simp add: search_loop_up)
next
  case (down low high iterations best buffer sz)
  then show ?case by (simp add: search_loop_down)
qed

lemma search_loop_raises:
  "search_loop probe target_size tolerance_bytes low high iterations best = (tr, Inl e) \<Longrightarrow>
   \<exists>q\<in>set tr. probe q = None"
  using search_loop_raises_fst[of probe target_size tolerance_bytes low high iterations best]
  by simp

lemma fine_tune_raises_fst:
  "isl (snd (fine_tune probe target_size qs best)) \<Longrightarrow>
   \<exists>q\<in>set (fst (fine_tune probe target_size qs best)). probe q = None"
proof (induction qs arbitrary: best)
  case Nil
  then show ?case by simp
next
  case (Cons q qs)
  obtain b s bq where best: "best = (b, s, bq)" by (cases best)
  from Cons.prems Cons.IH show ?case
    unfolding best by (auto split: option.splits)
qed

lemma fine_tune_raises:
  "fine_tune probe target_size qs best = (tr, Inl e) \<Longrightarrow> \<exists>q\<in>set tr. probe q = None"
  using fine_tune_raises_fst[of probe target_size qs best]
  by simp

lemma binary_search_quality_raises:
  assumes "binary_search_quality fl enc format target_size min_quality max_quality width height
      tolerance_pct = (tr, Inl e)"
  shows "\<exists>q\<in>set tr. enc format q width height = None"
  using assms unfolding binary_search_quality_def Let_def
  by (auto split: option.splits prod.splits sum.splits if_splits
      dest!: search_loop_raises fine_tune_raises)

lemma ladder_raises:
  "ladder fl enc format target_size original_width original_height scales = (tr, Inl e) \<Longrightarrow>
   \<not> every_call_returns enc tr"
proof (induction scales arbitrary: tr)
  case Nil
  then show ?case by simp
next
  case (Cons scale rest)
  obtain nw nh where dims: "calculate_new_dimensions fl original_width original_height scale
      = (nw, nh)"
    by (cases "calculate_new_dimensions fl original_width original_height scale")
  show ?case
  proof (cases "enc format 95 (Some nw) (Some nh)")
    case None
    with Cons.prems dims show ?thesis by (auto simp: every_call_returns_def)
  next
    case (Some p)
    obtain buffer sz where p: "p = (buffer, sz)" by (cases p)
    note top = Some[unfolded p]
    show ?thesis
    proof (cases "sz \<le> target_size")
      case True
      with Cons.prems dims top show ?thesis by simp
    next
      case False
      obtain tr0 r0 where search: "binary_search_quality fl enc format target_size 1 95
          (Some nw) (Some nh) 1 = (tr0, r0)"
        by (cases "binary_search_quality fl enc format target_size 1 95 (Some nw) (Some nh) 1")
      show ?thesis
      proof (cases r0)
        case (Inl e0)
        from binary_search_quality_raises[OF search[unfolded Inl]]
        obtain q where "q \<in> set tr0" "enc format q (Some nw) (Some nh) = None" by blast
        moreover from Cons.prems dims top False search Inl
        have "tr = (format, 95, Some nw, Some nh) # map (\<lambda>q. (format, q, Some nw, Some nh)) tr0"
          by simp
        ultimately show ?thesis
          by (force simp: every_call_returns_def list_all_iff)
      next
        case (Inr res0)
        show ?thesis
        proof (cases res0)
          case (Some best)
          with Cons.prems dims top False search Inr show ?thesis by simp
        next
          case None
          obtain tr1 r1 where rest: "ladder fl enc format target_size original_width
              original_height rest = (tr1, r1)"
            by (cases "ladder fl enc format target_size original_width original_height rest")
          from Cons.prems dims top False search Inr None rest
          have r1: "r1 = Inl e"
            and tr: "tr = ((format, 95, Some nw, Some nh)
                # map (\<lambda>q. (format, q, Some nw, Some nh)) tr0) @ tr1"
            by simp_all
          from Cons.IH[OF rest[unfolded r1]] show ?thesis
            unfolding tr by (simp add: every_call_returns_def)
        qed
      qed
    qed
  qed
qed

lemma compress_image_raises:
  assumes img: "opened file = Some img"
    and pos: "0 \<le> max_size_kb"
    and run: "compress_image fl enc file max_size_kb = (tr, Inl e)"
  shows "\<not> every_call_returns enc tr"
proof (cases "file_size file \<le> max_size_kb * 1024")
  case True
  with img run show ?thesis by (simp add: compress_image_def Let_def)
next
  case False
  with pos have nonzero: "file_size file \<noteq> 0" by auto
  let ?format = "format_for_compression_of img (file_size file) (max_size_kb * 1024)"
  obtain ow oh where size: "img_size img = (ow, oh)" by (cases "img_size img")
  obtain tr0 r0 where search: "binary_search_quality fl enc ?format (max_size_kb * 1024) 1 95
      None None 1 = (tr0, r0)"
    by (cases "binary_search_quality fl enc ?format (max_size_kb * 1024) 1 95 None None 1")
  show ?thesis
  proof (cases r0)
    case (Inl e0)
    from binary_search_quality_raises[OF search[unfolded Inl]]
    obtain q where "q \<in> set tr0" "enc ?format q None None = None" by blast
    moreover from img False run search Inl
    have "tr = map (\<lambda>q. (?format, q, None, None)) tr0"
      by (simp add: compress_image_def Let_def)
    ultimately show ?thesis
      by (force simp: every_call_returns_def list_all_iff)
  next
    case (Inr res0)
    show ?thesis
    proof (cases res0)
      case (Some best)
      obtain b s q where best: "best = (b, s, q)" by (cases best)
      from img False run search Inr Some best show ?thesis
        by (simp add: compress_image_def Let_def finish_returns[OF nonzero])
    next
      case None
      obtain tr1 r1 where steps: "ladder fl enc ?format (max_size_kb * 1024) ow oh
          (scale_factors fl) = (tr1, r1)"
        by (cases "ladder fl enc ?format (max_size_kb * 1024) ow oh (scale_factors fl)")
      show ?thesis
      proof (cases r1)
        case failed: (Inl e1)
        from img False run search Inr None size steps failed
        have tr: "tr = map (\<lambda>q. (?format, q, None, None)) tr0 @ tr1"
          by (simp add: compress_image_def Let_def)
        from ladder_raises[OF steps[unfolded failed]] show ?thesis
          unfolding tr by (simp add: every_call_returns_def)
      next
        case returned: (Inr res1)
        show ?thesis
        proof (cases res1)
          case (Some found)
          obtain b s q w h where found: "found = ((b, s, q), w, h)" by (cases found) auto
          from img False run search Inr None size steps returned Some found show ?thesis
            by (simp add: compress_image_def Let_def finish_returns[OF nonzero])
        next
          case none: None
          obtain mw mh where dims: "calculate_new_dimensions fl ow oh (fl (1 / 10)) = (mw, mh)"
            by (cases "calculate_new_dimensions fl ow oh (fl (1 / 10))")
          show ?thesis
          proof (cases "enc ?format 1 (Some mw) (Some mh)")
            case last: None
            from img False run search Inr None size steps returned none dims last
            have "tr = map (\<lambda>q. (?format, q, None, None)) tr0 @ tr1
                @ [(?format, 1, Some mw, Some mh)]"
              by (simp add: compress_image_def Let_def)
            with last show ?thesis
              by (simp add: every_call_returns_def)
          next
            case last: (Some p)
            obtain b s where p: "p = (b, s)" by (cases p)
            from img False run search Inr None size steps returned none dims last p
            show ?thesis
              by (simp add: compress_image_def Let_def finish_returns[OF nonzero])
          qed
        qed
      qed
    qed
  qed
qed

lemma total_encoder_every_call_returns: "total_encoder enc \<Longrightarrow> every_call_returns enc tr"
  by (simp add: total_encoder_def every_call_returns_def list_all_iff)

lemma compress_image_floor:
  assumes img: "opened file = Some img"
    and large: "max_size_kb * 1024 < file_size file"
    and nonzero: "file_size file \<noteq> 0"
    and format: "format = format_for_compression_of img (file_size file) (max_size_kb * 1024)"
    and size: "img_size img = (original_width, original_height)"
    and dims: "calculate_new_dimensions fl original_width original_height (fl (1 / 10))
         = (min_width, min_height)"
    and search: "binary_search_quality fl enc format (max_size_kb * 1024) 1 95 None None 1
         = (tr0, Inr None)"
    and steps: "ladder fl enc format (max_size_kb * 1024) original_width original_height
         (scale_factors fl) = (tr1, Inr None)"
    and last: "enc format 1 (Some min_width) (Some min_height) = Some (buffer, sz)"
  shows "\<exists>name info.
      compress_image fl enc file max_size_kb
        = (map (\<lambda>q. (format, q, None, None)) tr0 @ tr1
             @ [(format, 1, Some min_width, Some min_height)],
           Inr (buffer, name, info))
      \<and> map_of info ''success'' = Some (VBool (sz \<le> max_size_kb * 1024))
      \<and> map_of info ''actual_size_bytes'' = Some (VInt sz)
      \<and> map_of info ''quality'' = Some (VInt 1)
      \<and> map_of info ''resized'' = Some (VBool True)
      \<and> map_of info ''final_dimensions'' = Some (VPair (min_width, min_height))"
  using img large search steps last
  unfolding format
  by (simp add: compress_image_def Let_def size dims finish_returns[OF nonzero]
      compression_info_def)

text \<open>
  Claim C3, as amended.  Take an upload that Pillow decodes, a target that is
  not negative and a run of \<open>compress_image\<close> none of whose encoder calls
  raises.  Then \<open>compress_image\<close> returns a buffer, a file name and a
  dictionary.  When the search at the original dimensions finds nothing and no
  step of the ladder succeeds, the last encoder call is at quality 1 and at the
  dimensions of the scale 0.1, and what is returned is the buffer of that call,
  whatever its size: the dictionary's \<open>success\<close> is whether that size is at or
  under the target, so it is false when the size exceeds the target.  The
  encoder of the example raises for every format but JPEG; the run makes 27
  calls, all of them in JPEG.
\<close>

theorem compress_image_floor_and_returns:
  assumes img: "opened file = Some img"
    and calls: "every_call_returns enc (fst (compress_image fl enc file max_size_kb))"
    and pos: "0 \<le> max_size_kb"
  shows "(\<exists>buffer name info.
            snd (compress_image fl enc file max_size_kb) = Inr (buffer, name, info))
    \<and> (max_size_kb * 1024 < file_size file
        \<and> format = format_for_compression_of img (file_size file) (max_size_kb * 1024)
        \<and> img_size img = (original_width, original_height)
        \<and> calculate_new_dimensions fl original_width original_height (fl (1 / 10))
            = (min_width, min_height)
        \<and> binary_search_quality fl enc format (max_size_kb * 1024) 1 95 None None 1
            = (tr0, Inr None)
        \<and> ladder fl enc format (max_size_kb * 1024) original_width original_height
              (scale_factors fl) = (tr1, Inr None) \<longrightarrow>
        (\<exists>buffer sz name info.
           compress_image fl enc file max_size_kb
             = (map (\<lambda>q. (format, q, None, None)) tr0 @ tr1
                  @ [(format, 1, Some min_width, Some min_height)],
                Inr (buffer, name, info))
           \<and> enc format 1 (Some min_width) (Some min_height) = Some (buffer, sz)
           \<and> map_of info ''success'' = Some (VBool (sz \<le> max_size_kb * 1024))
           \<and> map_of info ''actual_size_bytes'' = Some (VInt sz)
           \<and> map_of info ''quality'' = Some (VInt 1)
           \<and> map_of info ''resized'' = Some (VBool True)
           \<and> map_of info ''final_dimensions'' = Some (VPair (min_width, min_height))))"
proof (intro conjI impI)
  obtain tr r where run: "compress_image fl enc file max_size_kb = (tr, r)"
    by (cases "compress_image fl enc file max_size_kb")
  show "\<exists>buffer name info.
      snd (compress_image fl enc file max_size_kb) = Inr (buffer, name, info)"
  proof (cases r)
    case (Inl e)
    from compress_image_raises[OF img pos run[unfolded Inl]] calls show ?thesis
      by (simp add: run)
  next
    case (Inr result)
    with run show ?thesis by (cases result) auto
  qed
next
  assume run: "max_size_kb * 1024 < file_size file
        \<and> format = format_for_compression_of img (file_size file) (max_size_kb * 1024)
        \<and> img_size img = (original_width, original_height)
        \<and> calculate_new_dimensions fl original_width original_height (fl (1 / 10))
            = (min_width, min_height)
        \<and> binary_search_quality fl enc format (max_size_kb * 1024) 1 95 None None 1
            = (tr0, Inr None)
        \<and> ladder fl enc format (max_size_kb * 1024) original_width original_height
              (scale_factors fl) = (tr1, Inr None)"
  with pos have nonzero: "file_size file \<noteq> 0" by auto
  from run have large: "max_size_kb * 1024 < file_size file"
    and format: "format = format_for_compression_of img (file_size file) (max_size_kb * 1024)"
    and size: "img_size img = (original_width, original_height)"
    and dims: "calculate_new_dimensions fl original_width original_height (fl (1 / 10))
            = (min_width, min_height)"
    and search: "binary_search_quality fl enc format (max_size_kb * 1024) 1 95 None None 1
            = (tr0, Inr None)"
    and steps: "ladder fl enc format (max_size_kb * 1024) original_width original_height
              (scale_factors fl) = (tr1, Inr None)"
    by blast+
  have "fst (compress_image fl enc file max_size_kb)
      = map (\<lambda>q. (format, q, None, None)) tr0 @ tr1
          @ [(format, 1, Some min_width, Some min_height)]"
    using img large search steps unfolding format
    by (simp add: compress_image_def Let_def size dims split: option.splits)
  with calls have "enc format 1 (Some min_width) (Some min_height) \<noteq> None"
    by (simp add: every_call_returns_def)
  then obtain buffer sz where last: "enc format 1 (Some min_width) (Some min_height)
      = Some (buffer, sz)"
    by (cases "enc format 1 (Some min_width) (Some min_height)") auto
  from compress_image_floor[OF img large nonzero format size dims search steps last] last
  show "\<exists>buffer sz name info.
           compress_image fl enc file max_size_kb
             = (map (\<lambda>q. (format, q, None, None)) tr0 @ tr1
                  @ [(format, 1, Some min_width, Some min_height)],
                Inr (buffer, name, info))
           \<and> enc format 1 (Some min_width) (Some min_height) = Some (buffer, sz)
           \<and> map_of info ''success'' = Some (VBool (sz \<le> max_size_kb * 1024))
           \<and> map_of info ''actual_size_bytes'' = Some (VInt sz)
           \<and> map_of info ''quality'' = Some (VInt 1)
           \<and> map_of info ''resized'' = Some (VBool True)
           \<and> map_of info ''final_dimensions'' = Some (VPair (min_width, min_height))"
    by blast
qed

theorem compress_image_floor_and_returns_witness:
  "(\<exists>buffer name info.
      snd (compress_image (\<lambda>x. x) (\<lambda>format q w h. if format = ''JPEG'' then Some ((), 1000000) else None) jpeg_upload 500)
        = Inr (buffer, name, info))
   \<and> (\<exists>buffer sz name info.
         compress_image (\<lambda>x. x) (\<lambda>format q w h. if format = ''JPEG'' then Some ((), 1000000) else None) jpeg_upload 500
           = (map (\<lambda>q. (''JPEG'', q, None, None)) [95, 1]
                @ fst (ladder (\<lambda>x. x) (\<lambda>format q w h. if format = ''JPEG'' then Some ((), 1000000) else None) ''JPEG'' (500 * 1024)
                         800 600 (scale_factors (\<lambda>x. x)))
                @ [(''JPEG'', 1, Some 80, Some 60)],
              Inr (buffer, name, info))
         \<and> (\<lambda>format q w h. if format = ''JPEG'' then Some ((), 1000000) else None) ''JPEG'' (1 :: int) (Some (80 :: int))
               (Some (60 :: int)) = Some (buffer, sz)
         \<and> map_of info ''success'' = Some (VBool (sz \<le> 500 * 1024))
         \<and> map_of info ''actual_size_bytes'' = Some (VInt sz)
         \<and> map_of info ''quality'' = Some (VInt 1)
         \<and> map_of info ''resized'' = Some (VBool True)
         \<and> map_of info ''final_dimensions'' = Some (VPair (80, 60)))
   \<and> map_of (snd (snd (projr (snd
         (compress_image (\<lambda>x. x) (\<lambda>format q w h. if format = ''JPEG'' then Some ((), 1000000) else None) jpeg_upload 500)))))
         ''success'' = Some (VBool False)
   \<and> length (fst (compress_image (\<lambda>x. x) (\<lambda>format q w h. if format = ''JPEG'' then Some ((), 1000000) else None) jpeg_upload 500)) = 27
   \<and> (\<lambda>format q w h. if format = ''JPEG'' then Some ((), 1000000) else None) ''PNG'' (95 :: int) (None :: int option) (None :: int option) = None"
proof -
  have img: "opened jpeg_upload = Some jpeg_image"
    by (simp add: jpeg_upload_def)
  have calls: "every_call_returns (\<lambda>format q w h. if format = ''JPEG'' then Some ((), 1000000) else None)
      (fst (compress_image (\<lambda>x. x) (\<lambda>format q w h. if format = ''JPEG'' then Some ((), 1000000) else None) jpeg_upload 500))"
    by code_simp
  have pos: "(0 :: int) \<le> 500"
    by simp
  note t = compress_image_floor_and_returns[OF img calls pos, where format = "''JPEG''"
      and original_width = 800 and original_height = 600
      and min_width = 80 and min_height = 60 and ?tr0.0 = "[95, 1]"
      and ?tr1.0 = "fst (ladder (\<lambda>x. x) (\<lambda>format q w h. if format = ''JPEG'' then Some ((), 1000000) else None) ''JPEG''
                           (500 * 1024) 800 600 (scale_factors (\<lambda>x. x)))"]
  have run: "500 * 1024 < file_size jpeg_upload
      \<and> ''JPEG'' = format_for_compression_of jpeg_image (file_size jpeg_upload) (500 * 1024)
      \<and> img_size jpeg_image = (800, 600)
      \<and> calculate_new_dimensions (\<lambda>x. x) 800 600 ((\<lambda>x. x) (1 / 10)) = (80, 60)
      \<and> binary_search_quality (\<lambda>x. x) (\<lambda>format q w h. if format = ''JPEG'' then Some ((), 1000000) else None) ''JPEG'' (500 * 1024)
            1 95 None None 1 = ([95, 1], Inr None)
      \<and> ladder (\<lambda>x. x) (\<lambda>format q w h. if format = ''JPEG'' then Some ((), 1000000) else None) ''JPEG'' (500 * 1024) 800 600
            (scale_factors (\<lambda>x. x))
          = (fst (ladder (\<lambda>x. x) (\<lambda>format q w h. if format = ''JPEG'' then Some ((), 1000000) else None) ''JPEG'' (500 * 1024)
                    800 600 (scale_factors (\<lambda>x. x))), Inr None)"
    by code_simp
  have flag: "map_of (snd (snd (projr (snd
         (compress_image (\<lambda>x. x) (\<lambda>format q w h. if format = ''JPEG'' then Some ((), 1000000) else None) jpeg_upload 500)))))
         ''success'' = Some (VBool False)"
    by code_simp
  have count: "length (fst (compress_image (\<lambda>x. x) (\<lambda>format q w h. if format = ''JPEG'' then Some ((), 1000000) else None) jpeg_upload 500)) = 27"
    by code_simp
  have partial: "(\<lambda>format q w h. if format = ''JPEG'' then Some ((), 1000000) else None) ''PNG'' (95 :: int) (None :: int option) (None :: int option) = None"
    by simp
  show ?thesis
    by (intro conjI) (rule t[THEN conjunct1], rule t[THEN conjunct2, THEN mp, OF run], rule flag,
        rule count, rule partial)
qed

text \<open>
  Claim C3 as stated fails where an encoder call raises: nothing in
  \<open>compress_image\<close> catches the exception.  Pillow opens a Photoshop document
  and has no encoder for the format, so the first call raises and so does
  \<open>compress_image\<close>, although the input passed decoding.
\<close>

theorem compress_image_encoder_failure:
  "opened psd_upload = Some psd_image
   \<and> compress_image (\<lambda>x. x) (\<lambda>format q w h. None :: (unit \<times> int) option) psd_upload 500
       = ([(''PSD'', 95, None, None)], Inl EncoderError)"
  by code_simp


section \<open>A source that is already small enough\<close>

lemma compress_image_early:
  assumes "opened file = Some img" "file_size file \<le> max_size_kb * 1024"
  shows "compress_image fl enc file max_size_kb
      = ([], Inr (file_buffer file,
                  base_name file @ ''_compressed.'' @ lower (original_format_of img),
                  early_info (file_size file) img))"
  using assms by (simp add: compress_image_def Let_def)

lemma find_optimal_compression_early:
  assumes "size_mb input_size \<le> target_size_mb"
  shows "find_optimal_compression fl gs input_size target_size_mb
      = ([], Inr (InputFile, size_mb input_size))"
  using assms by (simp add: find_optimal_compression_def Let_def)

lemma round2_zero: "fl 0 = 0 \<Longrightarrow> round2 fl 0 = 0"
  by (simp add: round2_def round_half_even_def)

lemma compress_to_target_size_early:
  assumes small: "size_kb input_size \<le> target_size_kb"
    and nonempty: "input_size \<noteq> 0"
    and zero: "fl 0 = 0"
  shows "\<exists>info. compress_to_target_size fl gs input_size target_size_kb
        = ([], Inr (InputFile, info))
      \<and> map_of info ''reduction_percent'' = Some (VFloat 0)
      \<and> map_of info ''compressed_size'' = map_of info ''original_size''
      \<and> map_of info ''quality'' = Some (VStr ''Original'')"
proof -
  have mb: "size_mb input_size \<le> target_size_kb / 1024"
    using small by (simp add: size_mb_def size_kb_def field_simps)
  have same: "size_mb input_size * 1024 = size_kb input_size"
    by (simp add: size_mb_def size_kb_def)
  have nz: "size_kb input_size \<noteq> 0"
    using nonempty by (simp add: size_kb_def)
  show ?thesis
    unfolding compress_to_target_size_def Let_def
      find_optimal_compression_early[OF mb]
    by (simp add: same nz zero round2_zero quality_label_def)
qed

text \<open>
  Claim C7, as amended.  For an image that Pillow decodes and whose file is at
  or under the target, \<open>compress_image\<close> makes no encoder call and returns the
  file object it was given, with \<open>reduction_percent\<close> 0, equal sizes, quality
  100 and \<open>resized\<close> false.  For a PDF at or under the target,
  \<open>find_optimal_compression\<close> makes no encoder call and returns the input file
  with its size, and \<open>compress_to_target_size\<close>, when the file is not empty,
  returns the bytes of the input with \<open>reduction_percent\<close> 0.0 and the quality
  \<open>Original\<close>.
\<close>

theorem source_returned_unchanged:
  "(opened file = Some img \<and> file_size file \<le> max_size_kb * 1024 \<longrightarrow>
      (\<exists>info. compress_image fl enc file max_size_kb
           = ([], Inr (file_buffer file,
                       base_name file @ ''_compressed.'' @ lower (original_format_of img),
                       info))
         \<and> map_of info ''reduction_percent'' = Some (VInt 0)
         \<and> map_of info ''compressed_size'' = map_of info ''original_size''
         \<and> map_of info ''quality'' = Some (VInt 100)
         \<and> map_of info ''resized'' = Some (VBool False)))
   \<and> (size_mb input_size \<le> target_size_mb \<longrightarrow>
        find_optimal_compression fl gs input_size target_size_mb
          = ([], Inr (InputFile, size_mb input_size)))
   \<and> (size_kb input_size \<le> target_size_kb \<and> input_size \<noteq> 0 \<and> fl 0 = 0 \<longrightarrow>
        (\<exists>info. compress_to_target_size fl gs input_size target_size_kb
             = ([], Inr (InputFile, info))
           \<and> map_of info ''reduction_percent'' = Some (VFloat 0)
           \<and> map_of info ''compressed_size'' = map_of info ''original_size''
           \<and> map_of info ''quality'' = Some (VStr ''Original'')))"
proof (intro conjI impI)
  assume "opened file = Some img \<and> file_size file \<le> max_size_kb * 1024"
  then show "\<exists>info. compress_image fl enc file max_size_kb
           = ([], Inr (file_buffer file,
                       base_name file @ ''_compressed.'' @ lower (original_format_of img),
                       info))
         \<and> map_of info ''reduction_percent'' = Some (VInt 0)
         \<and> map_of info ''compressed_size'' = map_of info ''original_size''
         \<and> map_of info ''quality'' = Some (VInt 100)
         \<and> map_of info ''resized'' = Some (VBool False)"
    by (simp add: compress_image_early early_info_def)
next
  assume "size_mb input_size \<le> target_size_mb"
  then show "find_optimal_compression fl gs input_size target_size_mb
          = ([], Inr (InputFile, size_mb input_size))"
    by (rule find_optimal_compression_early)
next
  assume "size_kb input_size \<le> target_size_kb \<and> input_size \<noteq> 0 \<and> fl 0 = 0"
  then show "\<exists>info. compress_to_target_size fl gs input_size target_size_kb
             = ([], Inr (InputFile, info))
           \<and> map_of info ''reduction_percent'' = Some (VFloat 0)
           \<and> map_of info ''compressed_size'' = map_of info ''original_size''
           \<and> map_of info ''quality'' = Some (VStr ''Original'')"
    using compress_to_target_size_early[of input_size target_size_kb fl gs] by blast
qed

theorem source_returned_unchanged_witness:
  "(\<exists>info. compress_image (\<lambda>x. x) (\<lambda>format q w h. None) jpeg_upload 2000
         = ([], Inr (file_buffer jpeg_upload,
                     base_name jpeg_upload @ ''_compressed.'' @ lower (original_format_of jpeg_image),
                     info))
       \<and> map_of info ''reduction_percent'' = Some (VInt 0)
       \<and> map_of info ''compressed_size'' = map_of info ''original_size''
       \<and> map_of info ''quality'' = Some (VInt 100)
       \<and> map_of info ''resized'' = Some (VBool False))
   \<and> find_optimal_compression (\<lambda>x. x) (\<lambda>level. None) 1048576 2
       = ([], Inr (InputFile, size_mb 1048576))
   \<and> (\<exists>info. compress_to_target_size (\<lambda>x. x) (\<lambda>level. None) 1048576 2048
           = ([], Inr (InputFile, info))
         \<and> map_of info ''reduction_percent'' = Some (VFloat 0)
         \<and> map_of info ''compressed_size'' = map_of info ''original_size''
         \<and> map_of info ''quality'' = Some (VStr ''Original''))"
proof -
  note t = source_returned_unchanged[where fl = "\<lambda>x. x" and ?file = jpeg_upload
      and img = jpeg_image and max_size_kb = 2000 and enc = "\<lambda>format q w h. None"
      and gs = "\<lambda>level. None" and input_size = 1048576 and target_size_mb = 2
      and target_size_kb = 2048]
  have a: "opened jpeg_upload = Some jpeg_image \<and> file_size jpeg_upload \<le> 2000 * 1024"
    by (simp add: jpeg_upload_def)
  have b: "size_mb 1048576 \<le> 2"
    by (simp add: size_mb_def)
  have c: "size_kb 1048576 \<le> 2048 \<and> (1048576 :: int) \<noteq> 0 \<and> (0 :: rat) = 0"
    by (simp add: size_kb_def)
  show ?thesis
    by (intro conjI)
       (rule t[THEN conjunct1, THEN mp, OF a],
        rule t[THEN conjunct2, THEN conjunct1, THEN mp, OF b],
        rule t[THEN conjunct2, THEN conjunct2, THEN mp, OF c])
qed

text \<open>
  Claim C7 as stated fails for a video, which \<open>compress_video_to_target\<close>
  encodes whatever its size: an upload of 1 MB with a target of 30 MB is encoded
  five times, and what comes back is the last encoding, here twice the size of
  the source, with \<open>reduction_percent\<close> -100.  Nor does the dictionary of any
  of these early returns hold a \<open>success\<close> entry; the image compressor's, for
  one, has none.
\<close>

theorem small_video_is_encoded_again:
  "size_kb 1048576 \<le> 30720
   \<and> compress_file_video (\<lambda>x. x) (\<lambda>b w h. Some 2097152) (Some (10, 640, 480)) 1048576 30720
       = ([(4000000, None, None), (4000000, Some 640, Some 480), (4000000, Some 640, Some 480),
           (4000000, Some 640, Some 480), (4000000, Some 640, Some 480)],
          Inr ((4000000, Some 640, Some 480),
               [(''original_size'', VFloat 1024), (''compressed_size'', VFloat 2048),
                (''reduction_percent'', VFloat (- 100)), (''quality'', VStr ''Original'')]))
   \<and> map_of (early_info (file_size jpeg_upload) jpeg_image) ''success'' = None"
  by code_simp


section \<open>The bisection of the PDF compressor\<close>

lemma tier_loop_stop:
  "\<not> (fl (1 / 20) < high - low \<and> iteration < pdf_max_iterations) \<Longrightarrow>
   tier_loop fl gs target_size_mb low high iteration best = ([], best)"
  by (subst tier_loop.simps) auto

lemma tier_loop_failed:
  "fl (1 / 20) < high - low \<Longrightarrow> iteration < pdf_max_iterations \<Longrightarrow>
   gs (get_settings_for_quality_factor fl ((low + high) / 2)) = None \<Longrightarrow>
   tier_loop fl gs target_size_mb low high iteration best
     = apfst (Cons ((low + high) / 2, get_settings_for_quality_factor fl ((low + high) / 2)))
         (tier_loop fl gs target_size_mb low ((low + high) / 2) (Suc iteration) best)"
  by (subst tier_loop.simps) (simp add: Let_def)

lemma tier_loop_fits:
  "fl (1 / 20) < high - low \<Longrightarrow> iteration < pdf_max_iterations \<Longrightarrow>
   gs (get_settings_for_quality_factor fl ((low + high) / 2)) = Some bytes \<Longrightarrow>
   size_mb bytes \<le> target_size_mb \<Longrightarrow>
   tier_loop fl gs target_size_mb low high iteration best
     = apfst (Cons ((low + high) / 2, get_settings_for_quality_factor fl ((low + high) / 2)))
         (tier_loop fl gs target_size_mb ((low + high) / 2) high (Suc iteration)
            (if snd best < size_mb bytes then (Quality ((low + high) / 2), size_mb bytes)
             else best))"
  by (subst tier_loop.simps) (simp add: Let_def)

lemma tier_loop_over:
  "fl (1 / 20) < high - low \<Longrightarrow> iteration < pdf_max_iterations \<Longrightarrow>
   gs (get_settings_for_quality_factor fl ((low + high) / 2)) = Some bytes \<Longrightarrow>
   \<not> size_mb bytes \<le> target_size_mb \<Longrightarrow>
   tier_loop fl gs target_size_mb low high iteration best
     = apfst (Cons ((low + high) / 2, get_settings_for_quality_factor fl ((low + high) / 2)))
         (tier_loop fl gs target_size_mb low ((low + high) / 2) (Suc iteration) best)"
  by (subst tier_loop.simps) (simp add: Let_def)

lemmas tier_loop_unfold = tier_loop_stop tier_loop_failed tier_loop_fits tier_loop_over

lemma tier_loop_cases_induct [case_names stop failed fits over]:
  assumes stop: "\<And>low high iteration best.
      \<not> (fl (1 / 20) < high - low \<and> iteration < pdf_max_iterations) \<Longrightarrow>
      P low high iteration best"
    and failed: "\<And>low high iteration best.
      fl (1 / 20) < high - low \<Longrightarrow> iteration < pdf_max_iterations \<Longrightarrow>
      gs (get_settings_for_quality_factor fl ((low + high) / 2)) = None \<Longrightarrow>
      P low ((low + high) / 2) (Suc iteration) best \<Longrightarrow>
      P low high iteration best"
    and fits: "\<And>low high iteration best bytes.
      fl (1 / 20) < high - low \<Longrightarrow> iteration < pdf_max_iterations \<Longrightarrow>
      gs (get_settings_for_quality_factor fl ((low + high) / 2)) = Some bytes \<Longrightarrow>
      size_mb bytes \<le> target_size_mb \<Longrightarrow>
      P ((low + high) / 2) high (Suc iteration)
        (if snd best < size_mb bytes then (Quality ((low + high) / 2), size_mb bytes)
         else best) \<Longrightarrow>
      P low high iteration best"
    and over: "\<And>low high iteration best bytes.
      fl (1 / 20) < high - low \<Longrightarrow> iteration < pdf_max_iterations \<Longrightarrow>
      gs (get_settings_for_quality_factor fl ((low + high) / 2)) = Some bytes \<Longrightarrow>
      \<not> size_mb bytes \<le> target_size_mb \<Longrightarrow>
      P low ((low + high) / 2) (Suc iteration) best \<Longrightarrow>
      P low high iteration best"
  shows "P (low :: rat) (high :: rat) (iteration :: nat) (best :: pdf_file \<times> rat)"
proof (induction "pdf_max_iterations - iteration" arbitrary: low high iteration best)
  case 0
  then show ?case by (intro stop) simp
next
  case (Suc n)
  then have n: "n = pdf_max_iterations - Suc iteration"
    and lt: "iteration < pdf_max_iterations"
    by simp_all
  show ?case
  proof (cases "fl (1 / 20) < high - low")
    case False
    then show ?thesis by (intro stop) simp
  next
    case True
    show ?thesis
    proof (cases "gs (get_settings_for_quality_factor fl ((low + high) / 2))")
      case None
      from True lt None Suc.hyps(1)[OF n] show ?thesis by (rule failed)
    next
      case (Some bytes)
      show ?thesis
      proof (cases "size_mb bytes \<le> target_size_mb")
        case fit: True
        from True lt Some fit Suc.hyps(1)[OF n] show ?thesis by (rule fits)
      next
        case False
        from True lt Some False Suc.hyps(1)[OF n] show ?thesis by (rule over)
      qed
    qed
  qed
qed

text \<open>The factors of the bisection lie strictly inside the interval, so none repeats.\<close>

lemma tier_loop_within:
  "low < high \<Longrightarrow>
   list_all (\<lambda>p. low < fst p \<and> fst p < high
               \<and> snd p = get_settings_for_quality_factor fl (fst p))
     (fst (tier_loop fl gs target_size_mb low high iteration best))"
proof (induction low high iteration best
    rule: tier_loop_cases_induct[where fl = fl and gs = gs and target_size_mb = target_size_mb])
  case (stop low high iteration best)
  then show ?case by (simp add: tier_loop_stop)
next
  case (failed low high iteration best)
  have mid: "low < (low + high) / 2" "(low + high) / 2 < high"
    using failed.prems by (simp_all add: field_simps)
  from failed.IH[OF mid(1)] have "list_all (\<lambda>p. low < fst p \<and> fst p < high
               \<and> snd p = get_settings_for_quality_factor fl (fst p))
     (fst (tier_loop fl gs target_size_mb low ((low + high) / 2) (Suc iteration) best))"
    by (rule list.pred_mono_strong) (use mid in auto)
  with failed.hyps mid show ?case by (simp add: tier_loop_failed)
next
  case (fits low high iteration best bytes)
  have mid: "low < (low + high) / 2" "(low + high) / 2 < high"
    using fits.prems by (simp_all add: field_simps)
  from fits.IH[OF mid(2)] have "list_all (\<lambda>p. low < fst p \<and> fst p < high
               \<and> snd p = get_settings_for_quality_factor fl (fst p))
     (fst (tier_loop fl gs target_size_mb ((low + high) / 2) high (Suc iteration)
        (if snd best < size_mb bytes then (Quality ((low + high) / 2), size_mb bytes)
         else best)))"
    by (rule list.pred_mono_strong) (use mid in auto)
  with fits.hyps mid show ?case by (simp add: tier_loop_fits)
next
  case (over low high iteration best bytes)
  have mid: "low < (low + high) / 2" "(low + high) / 2 < high"
    using over.prems by (simp_all add: field_simps)
  from over.IH[OF mid(1)] have "list_all (\<lambda>p. low < fst p \<and> fst p < high
               \<and> snd p = get_settings_for_quality_factor fl (fst p))
     (fst (tier_loop fl gs target_size_mb low ((low + high) / 2) (Suc iteration) best))"
    by (rule list.pred_mono_strong) (use mid in auto)
  with over.hyps mid show ?case by (simp add: tier_loop_over)
qed

lemma outside_not_probed:
  "list_all (\<lambda>p. lo < fst p \<and> fst p < hi \<and> Q p) tr \<Longrightarrow> m \<le> lo \<or> hi \<le> m \<Longrightarrow>
   m \<notin> fst ` set tr"
  for lo hi m :: rat
  by (auto simp: list_all_iff)

lemma tier_loop_distinct:
  "low < high \<Longrightarrow>
   distinct (map fst (fst (tier_loop fl gs target_size_mb low high iteration best)))"
proof (induction low high iteration best
    rule: tier_loop_cases_induct[where fl = fl and gs = gs and target_size_mb = target_size_mb])
  case (stop low high iteration best)
  then show ?case by (simp add: tier_loop_stop)
next
  case (failed low high iteration best)
  have mid: "low < (low + high) / 2" "(low + high) / 2 < high"
    using failed.prems by (simp_all add: field_simps)
  have "(low + high) / 2 \<notin> fst ` set (fst (tier_loop fl gs target_size_mb low ((low + high) / 2)
      (Suc iteration) best))"
    by (rule outside_not_probed[OF tier_loop_within[OF mid(1)]]) simp
  with failed.IH[OF mid(1)] failed.hyps show ?case by (simp add: tier_loop_failed)
next
  case (fits low high iteration best bytes)
  have mid: "low < (low + high) / 2" "(low + high) / 2 < high"
    using fits.prems by (simp_all add: field_simps)
  have "(low + high) / 2 \<notin> fst ` set (fst (tier_loop fl gs target_size_mb ((low + high) / 2)
      high (Suc iteration)
      (if snd best < size_mb bytes then (Quality ((low + high) / 2), size_mb bytes) else best)))"
    by (rule outside_not_probed[OF tier_loop_within[OF mid(2)]]) simp
  with fits.IH[OF mid(2)] fits.hyps show ?case by (simp add: tier_loop_fits)
next
  case (over low high iteration best bytes)
  have mid: "low < (low + high) / 2" "(low + high) / 2 < high"
    using over.prems by (simp_all add: field_simps)
  have "(low + high) / 2 \<notin> fst ` set (fst (tier_loop fl gs target_size_mb low ((low + high) / 2)
      (Suc iteration) best))"
    by (rule outside_not_probed[OF tier_loop_within[OF mid(1)]]) simp
  with over.IH[OF mid(1)] over.hyps show ?case by (simp add: tier_loop_over)
qed


section \<open>Encoder calls that repeat\<close>

lemma fine_tune_range_distinct: "distinct (fine_tune_range best_quality max_quality)"
  by (simp add: fine_tune_range_def)

text \<open>The encoder calls of the PDF search: the calls at the two bounds, then the bisection.\<close>

lemma find_optimal_compression_phases:
  "\<exists>bounds bisection.
     fst (find_optimal_compression fl gs input_size target_size_mb) = bounds @ bisection
     \<and> (bounds = [] \<or> bounds = [(0, get_settings_for_quality_factor fl 0)]
        \<or> bounds = [(0, get_settings_for_quality_factor fl 0),
                     (1, get_settings_for_quality_factor fl 1)])
     \<and> (bisection = []
        \<or> (\<exists>lowest_bytes.
              gs (get_settings_for_quality_factor fl 0) = Some lowest_bytes
              \<and> bisection = fst (tier_loop fl gs target_size_mb 0 1 0
                                   (LowestQuality, size_mb lowest_bytes))))"
proof -
  let ?run = "find_optimal_compression fl gs input_size target_size_mb"
  let ?lowest = "(0 :: rat, get_settings_for_quality_factor fl 0)"
  let ?highest = "(1 :: rat, get_settings_for_quality_factor fl 1)"
  let ?P = "\<lambda>bounds bisection.
     fst ?run = bounds @ bisection
     \<and> (bounds = [] \<or> bounds = [?lowest] \<or> bounds = [?lowest, ?highest])
     \<and> (bisection = []
        \<or> (\<exists>lowest_bytes.
              gs (get_settings_for_quality_factor fl 0) = Some lowest_bytes
              \<and> bisection = fst (tier_loop fl gs target_size_mb 0 1 0
                                   (LowestQuality, size_mb lowest_bytes))))"
  show ?thesis
  proof (cases "size_mb input_size \<le> target_size_mb")
    case True
    then have "?P [] []" by (simp add: find_optimal_compression_def Let_def)
    then show ?thesis by blast
  next
    case large: False
    show ?thesis
    proof (cases "gs (get_settings_for_quality_factor fl 0)")
      case None
      with large have "?P [?lowest] []" by (simp add: find_optimal_compression_def Let_def)
      then show ?thesis by blast
    next
      case lowest: (Some lowest_bytes)
      show ?thesis
      proof (cases "target_size_mb < size_mb lowest_bytes")
        case True
        with large lowest have "?P [?lowest] []"
          by (simp add: find_optimal_compression_def Let_def)
        then show ?thesis by blast
      next
        case fits: False
        show ?thesis
        proof (cases "gs (get_settings_for_quality_factor fl 1)")
          case None
          with large lowest fits have "?P [?lowest, ?highest] []"
            by (simp add: find_optimal_compression_def Let_def)
          then show ?thesis by blast
        next
          case highest: (Some highest_bytes)
          show ?thesis
          proof (cases "size_mb highest_bytes \<le> target_size_mb")
            case True
            with large lowest fits highest have "?P [?lowest, ?highest] []"
              by (simp add: find_optimal_compression_def Let_def)
            then show ?thesis by blast
          next
            case False
            with large lowest fits highest
            have "?P [?lowest, ?highest]
                (fst (tier_loop fl gs target_size_mb 0 1 0 (LowestQuality, size_mb lowest_bytes)))"
              by (simp add: find_optimal_compression_def Let_def split: prod.splits)
            then show ?thesis by blast
          qed
        qed
      qed
    qed
  qed
qed

text \<open>
  Claim C5, as amended.  The code keeps no record of the encoder calls it has
  made.  What holds is that three phases never repeat a value of their own.  The
  calls of an image quality search are the calls at the bounds, then the calls
  of the binary-search loop, which are pairwise distinct, then the calls of the
  fine-tuning pass, which are pairwise distinct.  The calls of the PDF search
  are the calls at the bounds, then the calls of the bisection, whose factors
  are pairwise distinct.  The same holds of each loop and of the fine-tuning
  pass from any state.  Nothing of the kind holds of the video compressor, nor
  across the phases of a search.
\<close>

theorem no_value_twice_within_a_phase:
  "(\<exists>bounds loop_calls refinement.
      fst (binary_search_quality fl enc format target_size min_quality max_quality width height
             tolerance_pct) = bounds @ loop_calls @ refinement
      \<and> (bounds = [max_quality] \<or> bounds = [max_quality, min_quality])
      \<and> distinct loop_calls
      \<and> distinct refinement
      \<and> (loop_calls = [] \<and> refinement = []
         \<or> (\<exists>buffer sz.
               enc format min_quality width height = Some (buffer, sz)
               \<and> bounds = [max_quality, min_quality]
               \<and> loop_calls
                   = fst (search_loop (\<lambda>q. enc format q width height) target_size
                            (fl (fl (of_int target_size * tolerance_pct) / 100))
                            min_quality max_quality 0 (buffer, sz, min_quality))
               \<and> (refinement = []
                  \<or> (\<exists>found.
                       snd (search_loop (\<lambda>q. enc format q width height) target_size
                              (fl (fl (of_int target_size * tolerance_pct) / 100))
                              min_quality max_quality 0 (buffer, sz, min_quality)) = Inr found
                       \<and> refinement
                           = fst (fine_tune (\<lambda>q. enc format q width height) target_size
                                    (fine_tune_range (snd (snd found)) max_quality) found))))))
   \<and> (\<exists>bounds bisection.
        fst (find_optimal_compression fl gs input_size target_size_mb) = bounds @ bisection
        \<and> (bounds = [] \<or> bounds = [(0, get_settings_for_quality_factor fl 0)]
           \<or> bounds = [(0, get_settings_for_quality_factor fl 0),
                        (1, get_settings_for_quality_factor fl 1)])
        \<and> distinct (map fst bisection)
        \<and> (bisection = []
           \<or> (\<exists>lowest_bytes.
                 gs (get_settings_for_quality_factor fl 0) = Some lowest_bytes
                 \<and> bisection = fst (tier_loop fl gs target_size_mb 0 1 0
                                      (LowestQuality, size_mb lowest_bytes)))))
   \<and> distinct (fst (search_loop probe target_size tolerance_bytes low high iterations best))
   \<and> distinct (fst (fine_tune probe target_size (fine_tune_range best_quality max_quality)
                      best'))
   \<and> distinct (map fst (fst (tier_loop fl gs target_size_mb 0 1 0 pdf_best)))"
proof (intro conjI)
  from binary_search_quality_phases[of fl enc format target_size min_quality max_quality width
      height tolerance_pct]
  obtain bounds loop_calls refinement where
    split: "fst (binary_search_quality fl enc format target_size min_quality max_quality width
            height tolerance_pct) = bounds @ loop_calls @ refinement"
    and bounds: "bounds = [max_quality] \<or> bounds = [max_quality, min_quality]"
    and phases: "loop_calls = [] \<and> refinement = []
        \<or> (\<exists>buffer sz.
              enc format min_quality width height = Some (buffer, sz)
              \<and> bounds = [max_quality, min_quality]
              \<and> loop_calls
                  = fst (search_loop (\<lambda>q. enc format q width height) target_size
                           (fl (fl (of_int target_size * tolerance_pct) / 100))
                           min_quality max_quality 0 (buffer, sz, min_quality))
              \<and> (refinement = []
                 \<or> (\<exists>found.
                      snd (search_loop (\<lambda>q. enc format q width height) target_size
                             (fl (fl (of_int target_size * tolerance_pct) / 100))
                             min_quality max_quality 0 (buffer, sz, min_quality)) = Inr found
                      \<and> refinement
                          = fst (fine_tune (\<lambda>q. enc format q width height) target_size
                                   (fine_tune_range (snd (snd found)) max_quality) found))))"
    by blast
  have loop: "distinct loop_calls"
    using phases search_loop_distinct by auto
  have tune: "distinct refinement"
    using phases fine_tune_within fine_tune_range_distinct by fastforce
  from split bounds loop tune phases
  show "\<exists>bounds loop_calls refinement.
      fst (binary_search_quality fl enc format target_size min_quality max_quality width height
             tolerance_pct) = bounds @ loop_calls @ refinement
      \<and> (bounds = [max_quality] \<or> bounds = [max_quality, min_quality])
      \<and> distinct loop_calls
      \<and> distinct refinement
      \<and> (loop_calls = [] \<and> refinement = []
         \<or> (\<exists>buffer sz.
               enc format min_quality width height = Some (buffer, sz)
               \<and> bounds = [max_quality, min_quality]
               \<and> loop_calls
                   = fst (search_loop (\<lambda>q. enc format q width height) target_size
                            (fl (fl (of_int target_size * tolerance_pct) / 100))
                            min_quality max_quality 0 (buffer, sz, min_quality))
               \<and> (refinement = []
                  \<or> (\<exists>found.
                       snd (search_loop (\<lambda>q. enc format q width height) target_size
                              (fl (fl (of_int target_size * tolerance_pct) / 100))
                              min_quality max_quality 0 (buffer, sz, min_quality)) = Inr found
                       \<and> refinement
                           = fst (fine_tune (\<lambda>q. enc format q width height) target_size
                                    (fine_tune_range (snd (snd found)) max_quality) found)))))"
    by blast
next
  from find_optimal_compression_phases[of fl gs input_size target_size_mb]
  obtain bounds bisection where
    split: "fst (find_optimal_compression fl gs input_size target_size_mb) = bounds @ bisection"
    and bounds: "bounds = [] \<or> bounds = [(0, get_settings_for_quality_factor fl 0)]
        \<or> bounds = [(0, get_settings_for_quality_factor fl 0),
                     (1, get_settings_for_quality_factor fl 1)]"
    and phase: "bisection = []
        \<or> (\<exists>lowest_bytes.
              gs (get_settings_for_quality_factor fl 0) = Some lowest_bytes
              \<and> bisection = fst (tier_loop fl gs target_size_mb 0 1 0
                                   (LowestQuality, size_mb lowest_bytes)))"
    by blast
  have "distinct (map fst bisection)"
    using phase tier_loop_distinct[of 0 1 fl gs target_size_mb 0] by auto
  with split bounds phase
  show "\<exists>bounds bisection.
        fst (find_optimal_compression fl gs input_size target_size_mb) = bounds @ bisection
        \<and> (bounds = [] \<or> bounds = [(0, get_settings_for_quality_factor fl 0)]
           \<or> bounds = [(0, get_settings_for_quality_factor fl 0),
                        (1, get_settings_for_quality_factor fl 1)])
        \<and> distinct (map fst bisection)
        \<and> (bisection = []
           \<or> (\<exists>lowest_bytes.
                 gs (get_settings_for_quality_factor fl 0) = Some lowest_bytes
                 \<and> bisection = fst (tier_loop fl gs target_size_mb 0 1 0
                                      (LowestQuality, size_mb lowest_bytes))))"
    by blast
next
  show "distinct (fst (search_loop probe target_size tolerance_bytes low high iterations best))"
    by (rule search_loop_distinct)
  show "distinct (fst (fine_tune probe target_size (fine_tune_range best_quality max_quality)
                      best'))"
    using fine_tune_within[of probe target_size "fine_tune_range best_quality max_quality" best']
      fine_tune_range_distinct[of best_quality max_quality]
    by simp
  show "distinct (map fst (fst (tier_loop fl gs target_size_mb 0 1 0 pdf_best)))"
    using tier_loop_distinct[of 0 1 fl gs target_size_mb 0 pdf_best] by simp
qed

text \<open>
  Claim C5 as stated fails across the phases, and within the bitrate loop of
  the video compressor.  With an encoder that fits the target at quality 1 only,
  the loop of the image search encodes quality 1 again (the call at the minimum
  bound has encoded it), and the fine-tuning pass encodes 2 and 3 again.  Each
  step of the dimension ladder encodes quality 95 at its dimensions and then
  starts a search that encodes quality 95 at the same dimensions first.  In the
  PDF search the factors 1, 15/16 and 29/32 resolve to the same level, which is
  encoded three times.  For a video of 10 seconds and 1000 by 500 pixels with a
  maximum of 30 MB, whose encodings all have 1000000 bytes, the bitrate is held
  at the upper limit of 4000000: the loop encodes the pair of that bitrate and
  1000 by 500 pixels four times.
\<close>

theorem quality_values_encoded_twice:
  "fst (binary_search_quality (\<lambda>x. x) (\<lambda>format q w h. Some ((), if q \<le> 1 then 50 else 200))
          ''JPEG'' 100 1 95 None None 1)
     = [95, 1, 48, 24, 12, 6, 3, 1, 2, 2, 3, 4, 5]
   \<and> \<not> distinct (fst (binary_search_quality (\<lambda>x. x)
          (\<lambda>format q w h. Some ((), if q \<le> 1 then 50 else 200)) ''JPEG'' 100 1 95 None None 1))
   \<and> take 5 (fst (compress_image (\<lambda>x. x) (\<lambda>format q w h. Some ((), 1000000)) jpeg_upload 500))
       = [(''JPEG'', 95, None, None), (''JPEG'', 1, None, None),
          (''JPEG'', 95, Some 720, Some 540), (''JPEG'', 95, Some 720, Some 540),
          (''JPEG'', 1, Some 720, Some 540)]
   \<and> map (\<lambda>p. (fst p, dpi (snd p)))
         (fst (find_optimal_compression (\<lambda>x. x)
                 (\<lambda>level. Some (if dpi level < 400 then 1048576 else 4194304)) 8388608 2))
       = [(0, 36), (1, 400), (1 / 2, 200), (3 / 4, 300), (7 / 8, 300), (15 / 16, 400),
          (29 / 32, 400)]
   \<and> fst (compress_video_to_target (\<lambda>x. x) (\<lambda>b w h. Some 1000000) (Some (10, 1000, 500)) 30)
       = [(4000000, None, None), (4000000, Some 1000, Some 500), (4000000, Some 1000, Some 500),
          (4000000, Some 1000, Some 500), (4000000, Some 1000, Some 500)]
   \<and> fst (adjust_loop (\<lambda>x. x) (\<lambda>b w h. Some 1000000) (28 * 1024 * 1024) (29 * 1024 * 1024)
            1000 500 1000000 4000000 1)
       = [(4000000, Some 1000, Some 500), (4000000, Some 1000, Some 500),
          (4000000, Some 1000, Some 500), (4000000, Some 1000, Some 500)]
   \<and> \<not> distinct (fst (adjust_loop (\<lambda>x. x) (\<lambda>b w h. Some 1000000) (28 * 1024 * 1024)
            (29 * 1024 * 1024) 1000 500 1000000 4000000 1))"
  by code_simp

section \<open>The result among the encoder calls\<close>



lemma largest_fitting_pdf_mono:
  "largest_fitting_pdf gs target_size_mb tr s \<Longrightarrow> s \<le> s' \<Longrightarrow>
   largest_fitting_pdf gs target_size_mb tr s'"
  unfolding largest_fitting_pdf_def
  by (erule list.pred_mono_strong) (auto split: option.splits)


lemma lowest_settings: "quality_factor (get_settings_for_quality_factor fl 0) = 0"
  by (simp add: get_settings_for_quality_factor_def CUSTOM_QUALITY_LEVELS_def)

lemma highest_settings: "1 \<le> quality_factor (get_settings_for_quality_factor fl 1)"
  using get_settings_in_range[of 1 fl] by auto


lemma monotone_tiers_highest_not_below_lowest:
  assumes "monotone_tiers gs"
  shows "highest_not_below_lowest fl gs target_size_mb"
proof -
  have "quality_factor (get_settings_for_quality_factor fl 0)
      \<le> quality_factor (get_settings_for_quality_factor fl 1)"
    using lowest_settings[of fl] highest_settings[of fl] by simp
  with assms show ?thesis
    unfolding monotone_tiers_def highest_not_below_lowest_def
    by (auto split: option.splits)
qed








subsection \<open>The largest encoding that fits\<close>






end
